theory Spec2Isabelle
  imports Complex_Main
begin

section \<open>Python values\<close>

text \<open>
  A Python \<open>str\<close> is a sequence of code points. The model is \<^typ>\<open>string\<close>, one
  \<^typ>\<open>char\<close> per code point, so it covers the texts whose code points are below 256
  (Latin-1, which holds the Swedish letters of the catalog); \<open>length\<close> counts code
  points as \<open>len\<close> does. Python \<open>float\<close> scores are read as the real numbers their
  decimal literals denote.
\<close>

abbreviation c_aring :: char where "c_aring \<equiv> CHR 0xE5"
abbreviation c_auml :: char where "c_auml \<equiv> CHR 0xE4"
abbreviation c_ouml :: char where "c_ouml \<equiv> CHR 0xF6"
abbreviation c_Aring :: char where "c_Aring \<equiv> CHR 0xC5"
abbreviation c_Auml :: char where "c_Auml \<equiv> CHR 0xC4"
abbreviation c_Ouml :: char where "c_Ouml \<equiv> CHR 0xD6"
abbreviation c_quote :: char where "c_quote \<equiv> CHR 0x27"
abbreviation c_newline :: char where "c_newline \<equiv> CHR 0x0A"

datatype py_error =
  AttributeError | TypeError | IndexError | ValueError | FileNotFoundError | ProviderError

text \<open>\<open>xs[:k]\<close>: a negative \<open>k\<close> counts from the end.\<close>

definition py_take :: "int \<Rightarrow> 'a list \<Rightarrow> 'a list" where
  "py_take k xs = (if 0 \<le> k then take (nat k) xs else take (length xs - nat (- k)) xs)"

text \<open>Character classes of CPython on code points below 256: \<open>str.isspace\<close> (also what
  \<open>\s\<close>, \<open>str.strip\<close> and \<open>str.split\<close> use), \<open>\w\<close> of a \<open>str\<close> pattern, and
  \<open>str.lower\<close>, which maps one code point to one code point in this range.\<close>

definition is_space :: "char \<Rightarrow> bool" where
  "is_space c = (let n = (of_char c :: nat) in
     (9 \<le> n \<and> n \<le> 13) \<or> (28 \<le> n \<and> n \<le> 32) \<or> n = 133 \<or> n = 160)"

definition is_word_char :: "char \<Rightarrow> bool" where
  "is_word_char c = (let n = (of_char c :: nat) in
     (48 \<le> n \<and> n \<le> 57) \<or> (65 \<le> n \<and> n \<le> 90) \<or> n = 95 \<or> (97 \<le> n \<and> n \<le> 122)
     \<or> n = 170 \<or> n = 178 \<or> n = 179 \<or> n = 181 \<or> n = 185 \<or> n = 186
     \<or> (188 \<le> n \<and> n \<le> 190) \<or> (192 \<le> n \<and> n \<le> 214) \<or> (216 \<le> n \<and> n \<le> 246)
     \<or> (248 \<le> n \<and> n \<le> 255))"

definition lower_char :: "char \<Rightarrow> char" where
  "lower_char c = (let n = (of_char c :: nat) in
     if (65 \<le> n \<and> n \<le> 90) \<or> (192 \<le> n \<and> n \<le> 214) \<or> (216 \<le> n \<and> n \<le> 222)
     then char_of (n + 32) else c)"

definition lower :: "string \<Rightarrow> string" where
  "lower text = map lower_char text"

text \<open>\<open>text.split()\<close>: the maximal runs of non-whitespace, in order.\<close>

fun split_from :: "string \<Rightarrow> string \<Rightarrow> string list" where
  "split_from cur [] = (if cur = [] then [] else [cur])"
| "split_from cur (c # cs) =
     (if is_space c then (if cur = [] then split_from [] cs else cur # split_from [] cs)
      else split_from (cur @ [c]) cs)"

definition py_split :: "string \<Rightarrow> string list" where
  "py_split text = split_from [] text"

text \<open>\<open>sub in text\<close>: \<open>sub\<close> starts at some position of \<open>text\<close>.\<close>

fun py_in :: "string \<Rightarrow> string \<Rightarrow> bool" where
  "py_in sub [] = (sub = [])"
| "py_in sub (c # cs) = (take (length sub) (c # cs) = sub \<or> py_in sub cs)"

text \<open>\<open>int(x)\<close> of a float truncates towards zero; \<open>str(i)\<close> of an integer is its
  decimal numeral, as an f-string writes it.\<close>

definition py_int :: "real \<Rightarrow> int" where
  "py_int x = (if 0 \<le> x then \<lfloor>x\<rfloor> else \<lceil>x\<rceil>)"

fun str_nat :: "nat \<Rightarrow> string" where
  "str_nat n = (if n < 10 then [char_of (48 + n)] else str_nat (n div 10) @ [char_of (48 + n mod 10)])"

declare str_nat.simps [simp del]

definition py_str :: "int \<Rightarrow> string" where
  "py_str i = (if i < 0 then CHR ''-'' # str_nat (nat (- i)) else str_nat (nat i))"

section \<open>document_processor.py: the chunker\<close>

text \<open>
  Slice bounds as \<open>text[i:j]\<close> and \<open>text.rfind(sub, i, j)\<close> read them: a negative bound
  counts from the end, and both are clipped to the text. \<open>rfind\<close> gives the highest
  position in \<open>[i, j - len(sub)]\<close> where \<open>sub\<close> starts, or -1; the model is for a
  non-empty \<open>sub\<close>.
\<close>

definition clip_index :: "nat \<Rightarrow> int \<Rightarrow> nat" where
  "clip_index n i = (if i < 0 then nat (i + int n) else min (nat i) n)"

definition py_slice :: "string \<Rightarrow> int \<Rightarrow> int \<Rightarrow> string" where
  "py_slice text i j =
     (let s = clip_index (length text) i; e = clip_index (length text) j
      in take (e - s) (drop s text))"

definition py_rfind :: "string \<Rightarrow> string \<Rightarrow> int \<Rightarrow> int \<Rightarrow> int" where
  "py_rfind text sub i j =
     (let s = clip_index (length text) i; e = clip_index (length text) j; m = length sub;
          found = filter (\<lambda>p. take m (drop p text) = sub)
                    (if s + m \<le> e then [s ..< e - m + 1] else [])
      in if found = [] then - 1 else int (last found))"

definition py_strip :: "string \<Rightarrow> string" where
  "py_strip text = rev (dropWhile is_space (rev (dropWhile is_space text)))"

text \<open>\<open>re.sub(r'\s+', ' ', text)\<close>: every maximal run of whitespace becomes one space;
  the flag says that the previous character was whitespace.\<close>

fun collapse_ws :: "bool \<Rightarrow> string \<Rightarrow> string" where
  "collapse_ws in_run [] = []"
| "collapse_ws in_run (c # cs) =
     (if is_space c then (if in_run then collapse_ws True cs else CHR '' '' # collapse_ws True cs)
      else c # collapse_ws False cs)"

record DocumentProcessor =
  chunk_size :: int
  chunk_overlap :: int

definition DocumentProcessor_default :: DocumentProcessor where
  "DocumentProcessor_default = \<lparr>chunk_size = 1000, chunk_overlap = 200\<rparr>"

definition sentence_endings :: "string list" where
  "sentence_endings =
     [''. '', ''! '', ''? '', [CHR ''.'', c_newline], [CHR ''!'', c_newline],
      [CHR ''?'', c_newline]]"

text \<open>The \<open>for ending in sentence_endings\<close> loop, started with \<open>last_sentence = -1\<close>.\<close>

definition last_sentence_end :: "string \<Rightarrow> int \<Rightarrow> int \<Rightarrow> int" where
  "last_sentence_end text start stop =
     fold (\<lambda>ending last_sentence.
             (let pos = py_rfind text ending start stop
              in if pos > last_sentence then pos + int (length ending) else last_sentence))
       sentence_endings (- 1)"

text \<open>The value of \<open>end\<close> when the chunk is cut, for the window that begins at \<open>start\<close>.\<close>

definition window_end :: "DocumentProcessor \<Rightarrow> string \<Rightarrow> int \<Rightarrow> int" where
  "window_end dp text start =
     (let stop = start + chunk_size dp
      in if stop < int (length text) then
           (let last_sentence = last_sentence_end text start stop
            in if last_sentence > start then last_sentence else stop)
         else stop)"

text \<open>
  The \<open>while start < len(text)\<close> loop. Nothing in the source bounds its iterations, so
  the model counts them: with fuel \<open>n\<close> the result is \<open>Some chunks\<close> when the loop ends
  within \<open>n\<close> iterations and \<open>None\<close> when it is still running after \<open>n\<close>.
\<close>

fun chunk_loop :: "nat \<Rightarrow> DocumentProcessor \<Rightarrow> string \<Rightarrow> int \<Rightarrow> string list \<Rightarrow> string list option" where
  "chunk_loop 0 dp text start chunks =
     (if start < int (length text) then None else Some chunks)"
| "chunk_loop (Suc fuel) dp text start chunks =
     (if start < int (length text) then
        (let stop = window_end dp text start;
             chunk = py_strip (py_slice text start stop);
             chunks' = (if chunk \<noteq> [] then chunks @ [chunk] else chunks)
         in chunk_loop fuel dp text (stop - chunk_overlap dp) chunks')
      else Some chunks)"

definition chunk_text :: "nat \<Rightarrow> DocumentProcessor \<Rightarrow> string \<Rightarrow> string list option" where
  "chunk_text fuel dp raw =
     (let text = py_strip (collapse_ws False raw)
      in if int (length text) \<le> chunk_size dp then Some [text]
         else chunk_loop fuel dp text 0 [])"

section \<open>service_mapper.py: the keyword mapper\<close>

record ExistingService =
  name :: string
  description :: string
  start_date :: "string option"
  svc_keywords :: "string list option"
  category :: "string option"

text \<open>The mapper object: \<open>self.services\<close>, \<open>self.service_index\<close> (keyword to the
  positions of the services filed under it) and \<open>self.loaded\<close>.\<close>

record ServiceMapper =
  services :: "ExistingService list"
  service_index :: "string \<rightharpoonup> nat list"
  loaded :: bool

definition ServiceMapper_init :: ServiceMapper where
  "ServiceMapper_init = \<lparr>services = [], service_index = Map.empty, loaded = False\<rparr>"

subsection \<open>\<open>_extract_keywords\<close>\<close>

definition stop_words :: "string list" where
  "stop_words =
     [''och'', ''att'', ''det'', ''en'', c_auml # ''r'', ''f'' @ c_ouml # ''r'', ''av'',
      ''med'', ''som'', ''p'' @ [c_aring], ''till'', ''den'', ''har'', ''de'', ''i'',
      ''om'', ''var'', ''inte'', ''kan'', ''vi'', ''ett'', ''han'', ''hon'', ''du'',
      ''ska'', ''blir'', ''eller'', ''s'' @ [c_aring], ''fr'' @ c_aring # ''n'',
      ''n'' @ c_auml # ''r'', c_ouml # ''ver'', ''under'', ''efter'',
      ''f'' @ c_ouml # ''re'', ''mellan'', ''hos'', ''inom'', ''utan'', ''genom'', ''mot'',
      ''vid'', ''upp'', ''ner'', ''ut'', ''in'', ''bara'', ''ocks'' @ [c_aring],
      ''mycket'', ''mer'', c_auml # ''n'', ''h'' @ c_auml # ''r'', ''d'' @ c_auml # ''r'',
      ''nu'', ''d'' @ [c_aring], ''sedan'', ''b'' @ c_auml # ''st'', ''passar'',
      ''anv'' @ c_auml # ''nds'', ''tj'' @ c_auml # ''nst'', ''service'', ''system'',
      ''l'' @ c_ouml # ''sning'', ''f'' @ c_ouml # ''r'']"

text \<open>\<open>re.sub\<close> with the pattern \<open>[^\w...\s]\<close>, whose dots stand for the six
  letters a-ring, a-umlaut, o-umlaut in both cases, and the replacement \<open>' '\<close>: one
  character at a time.\<close>

definition clean_char :: "char \<Rightarrow> char" where
  "clean_char c =
     (if is_word_char c \<or> c \<in> {c_aring, c_auml, c_ouml, c_Aring, c_Auml, c_Ouml} \<or> is_space c
      then c else CHR '' '')"

text \<open>
  \<open>list(set(keywords))\<close> lists each keyword once, in the order the hash table yields, which
  Python does not fix. That listing is the parameter \<open>set_list\<close>; what every run
  guarantees of it is \<open>set_listing\<close>.
\<close>

definition set_listing :: "(string list \<Rightarrow> string list) \<Rightarrow> bool" where
  "set_listing set_list = (\<forall>xs. set (set_list xs) = set xs \<and> distinct (set_list xs))"

definition extract_keywords :: "(string list \<Rightarrow> string list) \<Rightarrow> string \<Rightarrow> string list" where
  "extract_keywords set_list text =
     (let text1 = lower text;
          text2 = map clean_char text1;
          words = py_split text2;
          keywords = filter (\<lambda>word. length word \<ge> 3 \<and> word \<notin> set stop_words) words
      in py_take 10 (set_list keywords))"

subsection \<open>\<open>_categorize_service\<close>\<close>

text \<open>The \<open>categories\<close> dictionary literal, in the order it is written (the order a
  \<open>dict\<close> iterates in): its first entry and the six that follow.\<close>

definition categories_first :: "string \<times> string list" where
  "categories_first =
  (''IT och Digital'',
    [''system'', ''digital'', ''webb'', ''app'', ''api'', ''databas'', ''server'',
     ''n'' @ c_auml # ''tverk'', ''internet'', ''email'', ''epost'', ''programvara'',
     ''mjukvara'', ''it'', ''dator'', ''teknologi'', ''mobil'', ''uppkoppling'',
     ''anslutning'', ''wifi'', ''fiber''])"

definition categories_rest :: "(string \<times> string list) list" where
  "categories_rest = [
  (''Kommunikation'',
    [''kommunikation'', ''telefon'', ''samtal'', ''videokonferens'',
     ''m'' @ c_ouml # ''te'', ''meddelande'', ''anslagstavla'', ''information'',
     ''publicera'', ''kommunicera'', ''kontakt'']),
  (''S'' @ c_auml # ''kerhet'',
    [''s'' @ c_auml # ''kerhet'', ''brandskydd'', c_ouml # ''vervakning'', ''kamera'',
     ''larm'', ''skydd'', ''s'' @ c_auml # ''ker'', ''beh'' @ c_ouml # ''righet'',
     ''access'', ''inloggning'', ''authentication'', ''autentisering'']),
  (''Transport'',
    [''transport'', ''fordons'', ''bil'', ''buss'', ''cykel'', ''parkering'', ''trafik'',
     ''v'' @ c_auml # ''g'', ''resa'', ''mobilitet'', ''kollektivtrafik'']),
  (''Fastighet och Lokaler'',
    [''fastighet'', ''lokal'', ''byggnad'', ''hyra'', ''uthyrning'', ''utrymme'', ''rum'',
     ''kontor'', ''m'' @ c_ouml # ''tesrum'', ''facilitet'', ''underh'' @ c_aring # ''ll'',
     ''reng'' @ c_ouml # ''ring'']),
  (''Milj'' @ c_ouml # '' och H'' @ c_aring # ''llbarhet'',
    [''milj'' @ [c_ouml], ''h'' @ c_aring # ''llbar'', ''energi'', ''avfall'',
     c_aring # ''tervinning'', ''klimat'', ''gr'' @ c_ouml # ''n'',
     ''f'' @ c_ouml # ''rnybar'', ''koldioxid'', ''utsl'' @ c_auml # ''pp'', ''natur'',
     ''ekologi'']),
  (''Utbildning'',
    [''utbildning'', ''kurs'', ''tr'' @ c_auml # ''ning'', ''l'' @ c_auml # ''rande'',
     ''skola'', ''undervisning'', ''kompetensutveckling'', ''workshop'', ''seminarium'',
     ''certifiering''])]"

definition categories :: "(string \<times> string list) list" where
  "categories = categories_first # categories_rest"

definition category_other :: string where
  "category_other = c_Ouml # ''vrig''"

text \<open>The inner loop: \<open>score += 1\<close> for each pattern keyword that occurs in the text.\<close>

definition category_score :: "string list \<Rightarrow> string \<Rightarrow> nat" where
  "category_score kws text = fold (\<lambda>keyword score. if py_in keyword text then score + 1 else score) kws 0"

text \<open>\<open>max(d, key=d.get)\<close> walks the entries in order and replaces the best one only
  by a strictly larger score.\<close>

fun max_from :: "(string \<times> nat) \<Rightarrow> (string \<times> nat) list \<Rightarrow> (string \<times> nat)" where
  "max_from best [] = best"
| "max_from best (x # xs) = (if snd x > snd best then max_from x xs else max_from best xs)"

definition category_scores :: "string \<Rightarrow> (string \<times> nat) list" where
  "category_scores text = map (\<lambda>(c, kws). (c, category_score kws text)) categories"

definition categorize_service :: "string \<Rightarrow> string \<Rightarrow> string" where
  "categorize_service nm descr =
     (let text = lower (nm @ '' '' @ descr);
          scored = (\<lambda>(c, kws). (c, category_score kws text));
          best = max_from (scored categories_first) (map scored categories_rest)
      in if snd best > 0 then fst best else category_other)"

subsection \<open>\<open>_build_keyword_index\<close>\<close>

definition index_add :: "string \<Rightarrow> nat \<Rightarrow> (string \<rightharpoonup> nat list) \<Rightarrow> (string \<rightharpoonup> nat list)" where
  "index_add key i idx = (case idx key of None \<Rightarrow> idx(key \<mapsto> [i]) | Some ps \<Rightarrow> idx(key \<mapsto> ps @ [i]))"

definition index_service :: "nat \<Rightarrow> ExistingService \<Rightarrow> (string \<rightharpoonup> nat list) \<Rightarrow> (string \<rightharpoonup> nat list)" where
  "index_service i service idx =
     (let idx1 = fold (\<lambda>keyword. index_add keyword i)
                   (case svc_keywords service of None \<Rightarrow> [] | Some ks \<Rightarrow> ks) idx;
          name_words = py_split (lower (name service))
      in fold (\<lambda>word ix. if length word \<ge> 3 then index_add word i ix else ix) name_words idx1)"

definition build_keyword_index :: "ExistingService list \<Rightarrow> (string \<rightharpoonup> nat list)" where
  "build_keyword_index svcs = fold (\<lambda>(i, service). index_service i service) (enumerate 0 svcs) Map.empty"

subsection \<open>\<open>load_service_catalog\<close>\<close>

text \<open>
  The parsed HTML file, as far as the loaders read it: a table row is the sequence of its
  \<open>td\<close> and \<open>th\<close> cells with the text \<open>get_text(strip=True)\<close> gives; a table has rows
  before its \<open>tbody\<close> (a header) and may have a \<open>tbody\<close>; a file may be missing, and may
  hold no table.
\<close>

datatype cell_tag = Td | Th

record cell =
  tag :: cell_tag
  cell_text :: string

type_synonym row = "cell list"

record html_table =
  head_rows :: "row list"
  tbody :: "row list option"

datatype catalog_file = Missing | Html "html_table option"

definition row_service :: "(string list \<Rightarrow> string list) \<Rightarrow> cell list \<Rightarrow> ExistingService" where
  "row_service set_list cells =
     (let nm = cell_text (cells ! 0);
          descr = cell_text (cells ! 1);
          sd = Some (cell_text (cells ! 2))
      in \<lparr>name = nm, description = descr, start_date = sd,
          svc_keywords = Some (extract_keywords set_list (nm @ '' '' @ descr)),
          category = Some (categorize_service nm descr)\<rparr>)"

fun load_rows :: "(string list \<Rightarrow> string list) \<Rightarrow> row list \<Rightarrow> ExistingService list \<Rightarrow> ExistingService list" where
  "load_rows set_list [] svcs = svcs"
| "load_rows set_list (r # rows) svcs =
     (let cells = filter (\<lambda>c. tag c = Td) r in
      if length cells \<ge> 3 then load_rows set_list rows (svcs @ [row_service set_list cells])
      else load_rows set_list rows svcs)"

text \<open>A table without \<open>tbody\<close> makes \<open>table.find('tbody').find_all\<close> raise; the
  \<open>except\<close> returns \<open>False\<close> with the mapper as it was.\<close>

definition load_service_catalog ::
  "(string list \<Rightarrow> string list) \<Rightarrow> ServiceMapper \<Rightarrow> catalog_file \<Rightarrow> ServiceMapper \<times> bool" where
  "load_service_catalog set_list m file =
     (case file of
        Missing \<Rightarrow> (m, False)
      | Html None \<Rightarrow> (m, False)
      | Html (Some table) \<Rightarrow>
          (case tbody table of
             None \<Rightarrow> (m, False)
           | Some rows \<Rightarrow>
               (let svcs = load_rows set_list rows (services m)
                in (\<lparr>services = svcs, service_index = build_keyword_index svcs, loaded = True\<rparr>,
                    True))))"

subsection \<open>\<open>find_matching_services\<close>\<close>

text \<open>\<open>service_scores\<close>, a dictionary in insertion order.\<close>

fun bump :: "nat \<Rightarrow> (nat \<times> nat) list \<Rightarrow> (nat \<times> nat) list" where
  "bump i [] = [(i, 1)]"
| "bump i ((j, n) # rest) = (if i = j then (j, n + 1) # rest else (j, n) # bump i rest)"

definition score_keyword :: "(string \<rightharpoonup> nat list) \<Rightarrow> string \<Rightarrow> (nat \<times> nat) list \<Rightarrow> (nat \<times> nat) list" where
  "score_keyword idx keyword scores =
     (case idx keyword of None \<Rightarrow> scores | Some ps \<Rightarrow> fold bump ps scores)"

fun collect_results ::
  "ExistingService list \<Rightarrow> nat \<Rightarrow> (nat \<times> nat) list \<Rightarrow> py_error + (ExistingService \<times> real) list" where
  "collect_results svcs n [] = Inr []"
| "collect_results svcs n ((service_idx, score) # rest) =
     (if service_idx < length svcs then
        (case collect_results svcs n rest of
           Inl e \<Rightarrow> Inl e
         | Inr results \<Rightarrow> Inr ((svcs ! service_idx, real score / real (max n 1)) # results))
      else Inl IndexError)"

definition find_matching_services ::
  "(string list \<Rightarrow> string list) \<Rightarrow> ServiceMapper \<Rightarrow> string \<Rightarrow> int
     \<Rightarrow> py_error + (ExistingService \<times> real) list" where
  "find_matching_services set_list m idea_text max_results =
     (if \<not> loaded m then Inr []
      else
        (let idea_keywords = extract_keywords set_list idea_text;
             service_scores = fold (score_keyword (service_index m)) idea_keywords [];
             sorted_matches = sort_key (\<lambda>x. - int (snd x)) service_scores
         in collect_results (services m) (length idea_keywords)
              (py_take max_results sorted_matches)))"

subsection \<open>\<open>categorize_idea_development_need\<close>\<close>

text \<open>The dictionary returned by \<open>categorize_idea_development_need\<close>; the keys
  \<open>primary_service\<close> and \<open>development_candidate\<close> are present in one branch each.\<close>

record service_info =
  si_name :: string
  si_description :: string
  si_category :: "string option"
  si_match_score :: real

record need_result =
  recommendation :: string
  confidence :: real
  reasoning :: string
  matching_services :: "(ExistingService \<times> real) list"
  primary_service :: "service_info option"
  development_candidate :: "service_info option"

definition service_info_of :: "ExistingService \<Rightarrow> real \<Rightarrow> service_info" where
  "service_info_of s score =
     \<lparr>si_name = name s, si_description = description s, si_category = category s,
      si_match_score = score\<rparr>"

fun categorize_idea_development_need ::
  "string \<Rightarrow> string \<Rightarrow> (ExistingService \<times> real) list \<Rightarrow> need_result" where
  "categorize_idea_development_need idea_title idea_description [] =
     \<lparr>recommendation = ''new_service'', confidence = 0.9,
      reasoning = ''Ingen befintlig tj'' @ c_auml # ''nst hittades som matchar behovet.'',
      matching_services = [], primary_service = None, development_candidate = None\<rparr>"
| "categorize_idea_development_need idea_title idea_description ((best_service, best_score) # rest) =
     (let ms = (best_service, best_score) # rest in
      if best_score \<ge> 0.6 then
        \<lparr>recommendation = ''existing_service'', confidence = min 0.9 (best_score + 0.2),
         reasoning = ''Befintlig tj'' @ c_auml # ''nst '' @ c_quote # name best_service
                     @ c_quote # '' kan troligen m'' @ c_ouml # ''ta behovet.'',
         matching_services = py_take 3 ms,
         primary_service = Some (service_info_of best_service best_score),
         development_candidate = None\<rparr>
      else if best_score \<ge> 0.3 then
        \<lparr>recommendation = ''develop_existing'', confidence = 0.7,
         reasoning = ''Befintlig tj'' @ c_auml # ''nst '' @ c_quote # name best_service
                     @ c_quote # '' skulle kunna utvecklas f'' @ c_ouml # ''r att m''
                     @ c_ouml # ''ta behovet.'',
         matching_services = py_take 5 ms,
         primary_service = None,
         development_candidate = Some (service_info_of best_service best_score)\<rparr>
      else
        \<lparr>recommendation = ''new_service'', confidence = 0.8,
         reasoning = ''Ingen befintlig tj'' @ c_auml # ''nst matchar tillr'' @ c_auml
                     # ''ckligt v'' @ c_auml # ''l - ny tj'' @ c_auml
                     # ''nst beh'' @ c_ouml # ''vs troligen.'',
         matching_services = py_take 3 ms,
         primary_service = None, development_candidate = None\<rparr>)"

section \<open>rag_service.py: the document store\<close>

text \<open>
  The vector store's collection is the sequence of its entries, each with its id, its text
  and its metadata dictionary (\<open>collection.get()\<close> lists them; \<open>collection.count()\<close> is
  their number). A hit is one dictionary of the list \<open>search\<close> returns; its
  \<open>distance\<close> is \<open>None\<close> when the store reports no distances. \<open>search\<close> runs the
  embedding provider and the store's nearest-neighbour query, both outside the
  repository: its outcome, a list of hits or an exception, is a field of the model.
\<close>

record chunk_entry =
  entry_id :: string
  entry_document :: string
  entry_metadata :: "(string \<times> string) list"

record search_hit =
  hit_text :: string
  hit_metadata :: "(string \<times> string) list"
  hit_distance :: "real option"
  hit_id :: string

record RAGService =
  collection :: "chunk_entry list"
  search :: "string \<Rightarrow> int \<Rightarrow> py_error + search_hit list"

text \<open>\<open>collection.delete(ids=...)\<close> of the vector store removes the entries that carry
  one of the given ids.\<close>

definition collection_delete :: "string list \<Rightarrow> chunk_entry list \<Rightarrow> chunk_entry list" where
  "collection_delete ids coll = filter (\<lambda>e. entry_id e \<notin> set ids) coll"

record delete_result =
  dr_filename :: string
  chunks_deleted :: nat
  dr_status :: string

definition delete_document :: "string \<Rightarrow> RAGService \<Rightarrow> RAGService \<times> delete_result" where
  "delete_document filename rag =
     (let all_docs = collection rag;
          ids_to_delete = map entry_id
            (filter (\<lambda>e. map_of (entry_metadata e) ''filename'' = Some filename) all_docs)
      in if ids_to_delete \<noteq> [] then
           (rag\<lparr>collection := collection_delete ids_to_delete all_docs\<rparr>,
            \<lparr>dr_filename = filename, chunks_deleted = length ids_to_delete,
             dr_status = ''success''\<rparr>)
         else
           (rag, \<lparr>dr_filename = filename, chunks_deleted = 0, dr_status = ''not_found''\<rparr>))"

section \<open>service_catalog_loader.py: one document per service\<close>






section \<open>rag_service_mapper.py: the semantic mapper\<close>

text \<open>One entry of \<open>matching_services\<close> and the dictionary every path of
  \<open>map_idea_to_services\<close> returns.\<close>

record service_match =
  m_name :: string
  m_description :: string
  match_score :: real
  m_source :: string

record map_result =
  service_recommendation :: string
  service_confidence :: real
  service_reasoning :: string
  r_matching_services :: "service_match list"
  development_impact :: string
  best_match_score :: real

definition no_match_result :: map_result where
  "no_match_result =
     \<lparr>service_recommendation = ''new_service'', service_confidence = 0.8,
      service_reasoning = ''Inga tj'' @ c_auml # ''nster tillg'' @ c_auml
         # ''ngliga f'' @ c_ouml # ''r matchning - ny tj'' @ c_auml
         # ''nst beh'' @ c_ouml # ''vs troligen.'',
      r_matching_services = [], development_impact = ''high'', best_match_score = 0.0\<rparr>"

record RAGServiceMapper =
  use_rag :: bool
  rag_service :: "RAGService option"
  keyword_mapper :: ServiceMapper

text \<open>\<open>self.use_rag and self.rag_service and self.rag_service.collection.count() > 0\<close>.\<close>

definition rag_ready :: "RAGServiceMapper \<Rightarrow> bool" where
  "rag_ready m = (use_rag m \<and> (case rag_service m of None \<Rightarrow> False
                                  | Some rag \<Rightarrow> length (collection rag) > 0))"

definition ensure_services_loaded ::
  "(string list \<Rightarrow> string list) \<Rightarrow> catalog_file \<Rightarrow> RAGServiceMapper \<Rightarrow> RAGServiceMapper \<times> bool" where
  "ensure_services_loaded set_list file m =
     (if rag_ready m then (m, True)
      else
        (let km = (if \<not> loaded (keyword_mapper m)
                   then fst (load_service_catalog set_list (keyword_mapper m) file)
                   else keyword_mapper m)
         in (m\<lparr>keyword_mapper := km\<rparr>, loaded km)))"

text \<open>
  \<open>_map_with_keywords\<close> calls \<open>self.keyword_mapper.map_idea_to_services\<close>. Class
  \<open>ServiceMapper\<close> has the attributes \<open>services\<close>, \<open>service_index\<close>, \<open>loaded\<close> and the
  methods \<open>load_service_catalog\<close>, \<open>_extract_keywords\<close>, \<open>_categorize_service\<close>,
  \<open>_build_keyword_index\<close>, \<open>find_matching_services\<close>,
  \<open>categorize_idea_development_need\<close> and \<open>get_service_summary\<close>, and no base class:
  looking up \<open>map_idea_to_services\<close> on it raises \<open>AttributeError\<close>.
\<close>

definition ServiceMapper_map_idea_to_services ::
  "ServiceMapper \<Rightarrow> string \<Rightarrow> int \<Rightarrow> py_error + map_result" where
  "ServiceMapper_map_idea_to_services km query_text top_k = Inl AttributeError"

definition map_with_keywords :: "RAGServiceMapper \<Rightarrow> string \<Rightarrow> int \<Rightarrow> map_result" where
  "map_with_keywords m query_text top_k =
     (case ServiceMapper_map_idea_to_services (keyword_mapper m) query_text top_k of
        Inr result \<Rightarrow> result
      | Inl e \<Rightarrow> no_match_result)"

text \<open>The loop of \<open>_map_with_rag\<close> over the hits; \<open>1.0 - None\<close> raises \<open>TypeError\<close>.\<close>

definition hit_match :: "search_hit \<Rightarrow> py_error + service_match" where
  "hit_match result =
     (case hit_distance result of
        None \<Rightarrow> Inl TypeError
      | Some distance \<Rightarrow>
          Inr \<lparr>m_name = (case map_of (hit_metadata result) ''filename'' of
                           None \<Rightarrow> ''Unknown Service'' | Some f \<Rightarrow> f),
               m_description = take 200 (hit_text result),
               match_score = max 0 (1.0 - distance),
               m_source = ''rag''\<rparr>)"

fun hit_matches :: "search_hit list \<Rightarrow> py_error + service_match list" where
  "hit_matches [] = Inr []"
| "hit_matches (result # results) =
     (case hit_match result of
        Inl e \<Rightarrow> Inl e
      | Inr sm \<Rightarrow> (case hit_matches results of Inl e \<Rightarrow> Inl e | Inr sms \<Rightarrow> Inr (sm # sms)))"

definition percent :: "real \<Rightarrow> string" where
  "percent best_score = py_str (py_int (best_score * 100))"

definition rag_decision :: "service_match list \<Rightarrow> service_match \<Rightarrow> int \<Rightarrow> map_result" where
  "rag_decision matching best_match top_k =
     (let best_score = match_score best_match in
      if best_score \<ge> 0.7 then
        \<lparr>service_recommendation = ''existing_service'', service_confidence = best_score,
         service_reasoning = ''Stark matchning ('' @ percent best_score
            @ ''%) mot befintlig tj'' @ c_auml # ''nst: '' @ m_name best_match,
         r_matching_services = py_take top_k matching, development_impact = ''low'',
         best_match_score = best_score\<rparr>
      else if best_score \<ge> 0.5 then
        \<lparr>service_recommendation = ''develop_existing'', service_confidence = 0.7,
         service_reasoning = ''Medel matchning ('' @ percent best_score
            @ ''%) - kan utveckla befintlig tj'' @ c_auml # ''nst: '' @ m_name best_match,
         r_matching_services = py_take top_k matching, development_impact = ''medium'',
         best_match_score = best_score\<rparr>
      else
        \<lparr>service_recommendation = ''new_service'', service_confidence = 0.8,
         service_reasoning = ''L'' @ c_aring # ''g matchning ('' @ percent best_score
            @ ''%) - ny tj'' @ c_auml # ''nst beh'' @ c_ouml # ''vs troligen.'',
         r_matching_services = py_take top_k matching, development_impact = ''high'',
         best_match_score = best_score\<rparr>)"

text \<open>\<open>_map_with_rag\<close>: every exception inside its \<open>try\<close> leads to
  \<open>_map_with_keywords\<close>.\<close>

definition map_with_rag :: "RAGServiceMapper \<Rightarrow> string \<Rightarrow> int \<Rightarrow> map_result" where
  "map_with_rag m query_text top_k =
     (case rag_service m of
        None \<Rightarrow> map_with_keywords m query_text top_k
      | Some rag \<Rightarrow>
          (case search rag query_text top_k of
             Inl e \<Rightarrow> map_with_keywords m query_text top_k
           | Inr results \<Rightarrow>
               if results = [] then no_match_result
               else
                 (case hit_matches results of
                    Inl e \<Rightarrow> map_with_keywords m query_text top_k
                  | Inr [] \<Rightarrow> map_with_keywords m query_text top_k
                  | Inr (best_match # others) \<Rightarrow>
                      rag_decision (best_match # others) best_match top_k)))"

definition map_idea_to_services ::
  "(string list \<Rightarrow> string list) \<Rightarrow> catalog_file \<Rightarrow> RAGServiceMapper \<Rightarrow> string \<Rightarrow> string \<Rightarrow> int
     \<Rightarrow> RAGServiceMapper \<times> map_result" where
  "map_idea_to_services set_list file m idea_description idea_title top_k =
     (let m1 = fst (ensure_services_loaded set_list file m);
          query_text = idea_title @ ''. '' @ idea_description
      in if rag_ready m1 then (m1, map_with_rag m1 query_text top_k)
         else (m1, map_with_keywords m1 query_text top_k))"

section \<open>Notions for the properties\<close>

text \<open>The hits the score dictionary records for a service position (none when the position
  has no entry), and the positions filed under a keyword (none when the index has no such
  key).\<close>

definition hits_of :: "(nat \<times> nat) list \<Rightarrow> nat \<Rightarrow> nat" where
  "hits_of scores j = (case map_of scores j of None \<Rightarrow> 0 | Some h \<Rightarrow> h)"

definition postings :: "(string \<rightharpoonup> nat list) \<Rightarrow> string \<Rightarrow> nat list" where
  "postings idx kw = (case idx kw of None \<Rightarrow> [] | Some ps \<Rightarrow> ps)"




section \<open>Concrete inputs\<close>

text \<open>A catalog file with one service, the service the keyword mapper makes of it, and
  a semantic mapper over that catalog whose vector store holds one entry and whose
  \<open>search\<close> raises.\<close>

definition example_file :: catalog_file where
  "example_file = Html (Some \<lparr>head_rows = [], tbody = Some
     [[\<lparr>tag = Td, cell_text = ''Cykelparkering''\<rparr>,
       \<lparr>tag = Td, cell_text = ''Parkering av cykel vid station''\<rparr>,
       \<lparr>tag = Td, cell_text = ''2020''\<rparr>]]\<rparr>)"

definition example_service :: ExistingService where
  "example_service =
     \<lparr>name = ''Cykelparkering'', description = ''Parkering av cykel vid station'',
      start_date = Some ''2020'',
      svc_keywords = Some [''cykelparkering'', ''parkering'', ''cykel'', ''station''],
      category = Some ''Transport''\<rparr>"

definition example_entry :: chunk_entry where
  "example_entry =
     \<lparr>entry_id = ''Cykelparkering_chunk_0_t'', entry_document = ''Cykelparkering'',
      entry_metadata = [(''filename'', ''Cykelparkering'')]\<rparr>"

definition failing_mapper :: RAGServiceMapper where
  "failing_mapper =
     \<lparr>use_rag = True,
      rag_service = Some \<lparr>collection = [example_entry], search = (\<lambda>q k. Inl ProviderError)\<rparr>,
      keyword_mapper = fst (load_service_catalog remdups ServiceMapper_init example_file)\<rparr>"

text \<open>A semantic mapper with an empty vector store and an empty keyword mapper.\<close>

definition empty_mapper :: RAGServiceMapper where
  "empty_mapper =
     \<lparr>use_rag = True,
      rag_service = Some \<lparr>collection = [], search = (\<lambda>q k. Inr [])\<rparr>,
      keyword_mapper = ServiceMapper_init\<rparr>"

text \<open>A semantic mapper whose \<open>search\<close> returns one hit, of the given file name at the
  given distance.\<close>

definition single_hit :: "string \<Rightarrow> real \<Rightarrow> search_hit" where
  "single_hit filename distance =
     \<lparr>hit_text = ''Beskrivning'', hit_metadata = [(''filename'', filename)],
      hit_distance = Some distance, hit_id = ''id0''\<rparr>"

definition single_hit_rag :: "string \<Rightarrow> real \<Rightarrow> RAGService" where
  "single_hit_rag filename distance =
     \<lparr>collection = [\<lparr>entry_id = ''id0'', entry_document = ''Beskrivning'',
                      entry_metadata = [(''filename'', filename)]\<rparr>],
      search = (\<lambda>q k. Inr [single_hit filename distance])\<rparr>"

definition single_hit_mapper :: "string \<Rightarrow> real \<Rightarrow> RAGServiceMapper" where
  "single_hit_mapper filename distance =
     \<lparr>use_rag = True, rag_service = Some (single_hit_rag filename distance),
      keyword_mapper = ServiceMapper_init\<rparr>"

text \<open>A document store with two chunks of \<open>a.txt\<close> around one chunk of \<open>b.txt\<close>.\<close>

definition store_entry :: "string \<Rightarrow> string \<Rightarrow> chunk_entry" where
  "store_entry ident filename =
     \<lparr>entry_id = ident, entry_document = ''text'', entry_metadata = [(''filename'', filename)]\<rparr>"

definition example_store :: RAGService where
  "example_store =
     \<lparr>collection = [store_entry ''a0'' ''a.txt'', store_entry ''b0'' ''b.txt'',
                     store_entry ''a1'' ''a.txt''],
      search = (\<lambda>q k. Inr [])\<rparr>"

text \<open>The title of the spec's keyword example: \<open>Digital Arendehantering for Medborgare\<close>,
  with its umlauts.\<close>

definition example_title :: string where
  "example_title = ''Digital '' @ c_Auml # ''rendehantering f'' @ c_ouml # ''r Medborgare''"







text \<open>The keyword mapper after loading the example file; and a mapper of one service
  whose name word is a stop word, so that no keyword files it twice.\<close>

definition example_keyword_mapper :: ServiceMapper where
  "example_keyword_mapper = fst (load_service_catalog remdups ServiceMapper_init example_file)"

definition system_service :: ExistingService where
  "system_service =
     \<lparr>name = ''System'', description = ''Parkering av cykel'', start_date = Some ''2021'',
      svc_keywords = Some [''parkering'', ''cykel''], category = Some ''Transport''\<rparr>"

definition system_mapper :: ServiceMapper where
  "system_mapper =
     \<lparr>services = [system_service],
      service_index = [''parkering'' \<mapsto> [0], ''cykel'' \<mapsto> [0], ''system'' \<mapsto> [0]],
      loaded = True\<rparr>"

text \<open>A text of 21 letters without a sentence terminator, and a text of 20 characters
  whose first window holds one short sentence.\<close>

definition plain_text :: string where
  "plain_text = ''aaaaaaaaaaaaaaaaaaaaa''"

definition short_sentence_text :: string where
  "short_sentence_text = ''a. bbbbbbbbbbbbbbbbb''"

text \<open>A text whose first sentence ends at position 4.\<close>

definition stuck_text :: string where
  "stuck_text = ''Hi. aaaaaaaaaaaaaaaaaaaa''"

text \<open>The text \<open>Hi. \<close> followed by 1200 letters.\<close>

definition hi_text :: string where
  "hi_text = ''Hi. '' @ replicate 1200 (CHR ''a'')"

section \<open>The decision of the semantic mapper\<close>

lemma map_with_keywords_no_match: "map_with_keywords m q k = no_match_result"
  by (simp add: map_with_keywords_def ServiceMapper_map_idea_to_services_def)

lemma hit_matches_all:
  "\<forall>h \<in> set hs. hit_distance h \<noteq> None \<Longrightarrow> \<exists>ms. hit_matches hs = Inr ms \<and> length ms = length hs"
proof (induction hs)
  case Nil
  then show ?case by simp
next
  case (Cons h hs)
  then obtain ms where "hit_matches hs = Inr ms" "length ms = length hs" by auto
  moreover from Cons.prems obtain d where "hit_distance h = Some d" by auto
  ultimately show ?case by (simp add: hit_match_def)
qed

lemma py_int_nonneg: "0 \<le> x \<Longrightarrow> py_int x = \<lfloor>x\<rfloor>"
  by (simp add: py_int_def)

lemma map_with_rag_decision:
  assumes "rag_service m = Some rag"
      and "search rag query_text top_k = Inr (hit # hits)"
      and "hit_distance hit = Some d"
      and "\<forall>h \<in> set hits. hit_distance h \<noteq> None"
  shows "\<exists>best others. hit_match hit = Inr best \<and> hit_matches hits = Inr others \<and>
          map_with_rag m query_text top_k = rag_decision (best # others) best top_k"
proof -
  obtain others where o: "hit_matches hits = Inr others"
    using hit_matches_all[OF assms(4)] by blast
  obtain best where b: "hit_match hit = Inr best"
    using assms(3) by (simp add: hit_match_def)
  have "map_with_rag m query_text top_k = rag_decision (best # others) best top_k"
    using assms(1,2) o b by (simp add: map_with_rag_def)
  with o b show ?thesis by blast
qed

text \<open>
  Claim C3, as the code has it. When \<open>search\<close> returns a non-empty list of hits that all
  carry a distance, and the first hit has distance \<open>d\<close>, hence similarity
  \<open>s = max 0 (1 - d)\<close>, then \<open>_map_with_rag\<close> returns: for \<open>s \<ge> 0.7\<close>,
  \<open>existing_service\<close> with confidence \<open>s\<close> and impact \<open>low\<close>; for \<open>0.5 \<le> s < 0.7\<close>,
  \<open>develop_existing\<close> with confidence 0.7 and impact \<open>medium\<close>; for \<open>s < 0.5\<close>,
  \<open>new_service\<close> with confidence 0.8 and impact \<open>high\<close>. The reasoning is the branch's
  template with the percentage \<open>s * 100\<close> truncated to an integer; the first two templates
  end with the best match's name, the third does not mention it.
\<close>

theorem rag_thresholds:
  assumes "rag_service m = Some rag"
      and "search rag query_text top_k = Inr (hit # hits)"
      and "hit_distance hit = Some d"
      and "\<forall>h \<in> set hits. hit_distance h \<noteq> None"
      and "s = max 0 (1 - d)"
      and "nm = (case map_of (hit_metadata hit) ''filename'' of
                   None \<Rightarrow> ''Unknown Service'' | Some f \<Rightarrow> f)"
      and "r = map_with_rag m query_text top_k"
  shows "(0.7 \<le> s \<longrightarrow>
            service_recommendation r = ''existing_service'' \<and> service_confidence r = s
            \<and> development_impact r = ''low''
            \<and> service_reasoning r = ''Stark matchning ('' @ py_str \<lfloor>s * 100\<rfloor>
                 @ ''%) mot befintlig tj'' @ c_auml # ''nst: '' @ nm)
       \<and> (0.5 \<le> s \<and> s < 0.7 \<longrightarrow>
            service_recommendation r = ''develop_existing'' \<and> service_confidence r = 0.7
            \<and> development_impact r = ''medium''
            \<and> service_reasoning r = ''Medel matchning ('' @ py_str \<lfloor>s * 100\<rfloor>
                 @ ''%) - kan utveckla befintlig tj'' @ c_auml # ''nst: '' @ nm)
       \<and> (s < 0.5 \<longrightarrow>
            service_recommendation r = ''new_service'' \<and> service_confidence r = 0.8
            \<and> development_impact r = ''high''
            \<and> service_reasoning r = ''L'' @ c_aring # ''g matchning ('' @ py_str \<lfloor>s * 100\<rfloor>
                 @ ''%) - ny tj'' @ c_auml # ''nst beh'' @ c_ouml # ''vs troligen.'')"
proof -
  obtain best others where b: "hit_match hit = Inr best"
    and r: "map_with_rag m query_text top_k = rag_decision (best # others) best top_k"
    using map_with_rag_decision[OF assms(1-4)] by blast
  have sc: "match_score best = s" and n: "m_name best = nm"
    using b assms(3,5,6) by (auto simp: hit_match_def)
  have s0: "0 \<le> s" using assms(5) by simp
  have p: "percent s = py_str \<lfloor>s * 100\<rfloor>"
    using s0 by (simp add: percent_def py_int_nonneg)
  show ?thesis
    unfolding assms(7) r rag_decision_def Let_def sc n p by simp
qed

text \<open>The three bands at the distances 0.25, 0.4375 and 0.75, that is at the scores
  0.75, 0.5625 and 0.25.\<close>

theorem rag_thresholds_witness:
  "service_recommendation (map_with_rag (single_hit_mapper ''Cykelparkering'' 0.25) ''cykel'' 5)
     = ''existing_service''
   \<and> service_confidence (map_with_rag (single_hit_mapper ''Cykelparkering'' 0.25) ''cykel'' 5)
     = 0.75
   \<and> development_impact (map_with_rag (single_hit_mapper ''Cykelparkering'' 0.25) ''cykel'' 5)
     = ''low''
   \<and> service_reasoning (map_with_rag (single_hit_mapper ''Cykelparkering'' 0.25) ''cykel'' 5)
     = ''Stark matchning (75%) mot befintlig tj'' @ c_auml # ''nst: Cykelparkering''
   \<and> service_recommendation (map_with_rag (single_hit_mapper ''Cykelparkering'' 0.4375) ''cykel'' 5)
     = ''develop_existing''
   \<and> service_confidence (map_with_rag (single_hit_mapper ''Cykelparkering'' 0.4375) ''cykel'' 5)
     = 0.7
   \<and> development_impact (map_with_rag (single_hit_mapper ''Cykelparkering'' 0.4375) ''cykel'' 5)
     = ''medium''
   \<and> service_reasoning (map_with_rag (single_hit_mapper ''Cykelparkering'' 0.4375) ''cykel'' 5)
     = ''Medel matchning (56%) - kan utveckla befintlig tj'' @ c_auml # ''nst: Cykelparkering''
   \<and> service_recommendation (map_with_rag (single_hit_mapper ''Cykelparkering'' 0.75) ''cykel'' 5)
     = ''new_service''
   \<and> service_confidence (map_with_rag (single_hit_mapper ''Cykelparkering'' 0.75) ''cykel'' 5)
     = 0.8
   \<and> development_impact (map_with_rag (single_hit_mapper ''Cykelparkering'' 0.75) ''cykel'' 5)
     = ''high''
   \<and> service_reasoning (map_with_rag (single_hit_mapper ''Cykelparkering'' 0.75) ''cykel'' 5)
     = ''L'' @ c_aring # ''g matchning (25%) - ny tj'' @ c_auml # ''nst beh'' @ c_ouml # ''vs troligen.''"
proof -
  have rag: "rag_service (single_hit_mapper ''Cykelparkering'' d)
               = Some (single_hit_rag ''Cykelparkering'' d)" for d
    by (simp add: single_hit_mapper_def)
  have hits: "search (single_hit_rag ''Cykelparkering'' d) ''cykel'' 5
               = Inr (single_hit ''Cykelparkering'' d # [])" for d
    by (simp add: single_hit_rag_def)
  have dist: "hit_distance (single_hit ''Cykelparkering'' d) = Some d" for d
    by (simp add: single_hit_def)
  have others: "\<forall>h \<in> set []. hit_distance h \<noteq> None" by simp
  have nm: "''Cykelparkering''
              = (case map_of (hit_metadata (single_hit ''Cykelparkering'' d)) ''filename'' of
                   None \<Rightarrow> ''Unknown Service'' | Some f \<Rightarrow> f)" for d
    by (simp add: single_hit_def)
  have s1: "(0.75::real) = max 0 (1 - 0.25)" by simp
  have s2: "(0.5625::real) = max 0 (1 - 0.4375)" by simp
  have s3: "(0.25::real) = max 0 (1 - 0.75)" by simp
  have p1: "py_str \<lfloor>(0.75::real) * 100\<rfloor> = ''75''" by code_simp
  have p2: "py_str \<lfloor>(0.5625::real) * 100\<rfloor> = ''56''" by code_simp
  have p3: "py_str \<lfloor>(0.25::real) * 100\<rfloor> = ''25''" by code_simp
  note t1 = rag_thresholds[OF rag hits dist others s1 nm refl]
  note t2 = rag_thresholds[OF rag hits dist others s2 nm refl]
  note t3 = rag_thresholds[OF rag hits dist others s3 nm refl]
  show ?thesis
    using t1 t2 t3 p1 p2 p3 by simp
qed

text \<open>
  Claim C3, as the spec states it, asks for the rounded percentage and for the best
  match's name in every branch. At distance 0.2421875 the score is 0.7578125: the
  reasoning shows 75, and rounding 75.78125 gives 76. At distance 0.75 the reasoning of
  the \<open>new_service\<close> branch is the same text for the best matches \<open>A\<close> and \<open>B\<close>.
\<close>

theorem rag_reasoning_truncates_and_omits_name:
  "service_reasoning (map_with_rag (single_hit_mapper ''A'' 0.2421875) ''q'' 5)
     = ''Stark matchning (75%) mot befintlig tj'' @ c_auml # ''nst: A''
   \<and> round ((1 - 0.2421875) * 100 :: real) = 76
   \<and> service_reasoning (map_with_rag (single_hit_mapper ''A'' 0.75) ''q'' 5)
     = ''L'' @ c_aring # ''g matchning (25%) - ny tj'' @ c_auml # ''nst beh'' @ c_ouml # ''vs troligen.''
   \<and> service_reasoning (map_with_rag (single_hit_mapper ''B'' 0.75) ''q'' 5)
     = service_reasoning (map_with_rag (single_hit_mapper ''A'' 0.75) ''q'' 5)"
proof -
  have p1: "percent 0.7578125 = ''75''" by code_simp
  have p2: "percent 0.25 = ''25''" by code_simp
  have r: "round ((1 - 0.2421875) * 100 :: real) = 76" by (simp add: round_def)
  show ?thesis
    using p1 p2 r
    by (simp add: single_hit_mapper_def single_hit_rag_def single_hit_def map_with_rag_def
        hit_match_def rag_decision_def Let_def)
qed

section \<open>The fallback chain\<close>

text \<open>
  Claim C5. When the semantic index holds no record (the vector store is empty, or there
  is no vector store), \<open>map_idea_to_services\<close> returns recommendation \<open>new_service\<close>,
  confidence 0.8, impact \<open>high\<close> and an empty candidate list, for every query, every
  \<open>top_k\<close>, every catalog file and every state of the keyword mapper, an empty keyword
  index among them.
\<close>

theorem empty_catalog_no_match:
  assumes "\<forall>rag. rag_service m = Some rag \<longrightarrow> collection rag = []"
      and "r = snd (map_idea_to_services set_list file m idea_description idea_title top_k)"
  shows "service_recommendation r = ''new_service'' \<and> service_confidence r = 0.8
         \<and> development_impact r = ''high'' \<and> r_matching_services r = []"
proof -
  have "\<not> rag_ready m"
    using assms(1) by (auto simp: rag_ready_def split: option.splits)
  then have "\<not> rag_ready (fst (ensure_services_loaded set_list file m))"
    by (simp add: ensure_services_loaded_def rag_ready_def Let_def)
  then have "r = no_match_result"
    by (simp add: assms(2) map_idea_to_services_def Let_def map_with_keywords_no_match)
  then show ?thesis by (simp add: no_match_result_def)
qed

theorem empty_catalog_no_match_witness:
  "services (keyword_mapper empty_mapper) = []
   \<and> service_recommendation (snd (map_idea_to_services remdups Missing empty_mapper
         ''cykel'' ''Parkering'' 5)) = ''new_service''
   \<and> service_confidence (snd (map_idea_to_services remdups Missing empty_mapper
         ''cykel'' ''Parkering'' 5)) = 0.8
   \<and> development_impact (snd (map_idea_to_services remdups Missing empty_mapper
         ''cykel'' ''Parkering'' 5)) = ''high''
   \<and> r_matching_services (snd (map_idea_to_services remdups Missing empty_mapper
         ''cykel'' ''Parkering'' 5)) = []"
proof -
  have e: "\<forall>rag. rag_service empty_mapper = Some rag \<longrightarrow> collection rag = []"
    by (simp add: empty_mapper_def)
  have k: "services (keyword_mapper empty_mapper) = []"
    by (simp add: empty_mapper_def ServiceMapper_init_def)
  show ?thesis
    using empty_catalog_no_match[OF e refl, of remdups Missing "''cykel''" "''Parkering''" 5] k
    by simp
qed

text \<open>
  Claim C1 at a concrete input. The vector store holds one entry and \<open>search\<close> raises;
  the keyword mapper has loaded the one-service catalog, and its
  \<open>find_matching_services\<close> finds that service for the query with score 1. The result of
  \<open>map_idea_to_services\<close> is nevertheless \<open>_no_match_result\<close>, with no candidate: no
  exception reaches the caller, and no keyword score reaches the result.
\<close>

theorem fallback_drops_keyword_matches:
  "loaded (keyword_mapper failing_mapper)
   \<and> find_matching_services remdups (keyword_mapper failing_mapper) ''Parkering. cykel'' 5
       = Inr [(example_service, 1)]
   \<and> snd (map_idea_to_services remdups example_file failing_mapper ''cykel'' ''Parkering'' 5)
       = no_match_result
   \<and> r_matching_services no_match_result = []"
proof -
  have l: "loaded (keyword_mapper failing_mapper)"
    by (simp add: failing_mapper_def load_service_catalog_def example_file_def Let_def)
  have f: "find_matching_services remdups (keyword_mapper failing_mapper) ''Parkering. cykel'' 5
             = Inr [(example_service, 1)]"
    unfolding failing_mapper_def by code_simp
  have m: "snd (map_idea_to_services remdups example_file failing_mapper ''cykel'' ''Parkering'' 5)
             = no_match_result"
    by (simp add: map_idea_to_services_def Let_def failing_mapper_def ensure_services_loaded_def
        rag_ready_def example_entry_def map_with_rag_def map_with_keywords_no_match)
  show ?thesis using l f m by (simp add: no_match_result_def)
qed

section \<open>Deleting a document\<close>

lemma collection_delete_matching:
  assumes "distinct (map entry_id coll)"
  shows "collection_delete (map entry_id (filter P coll)) coll = filter (\<lambda>e. \<not> P e) coll"
proof -
  have inj: "inj_on entry_id (set coll)" using assms by (simp add: distinct_map)
  have "entry_id e \<in> set (map entry_id (filter P coll)) \<longleftrightarrow> P e" if "e \<in> set coll" for e
    using that inj by (auto simp: inj_on_def)
  then show ?thesis
    unfolding collection_delete_def by (intro filter_cong) auto
qed

lemma delete_document_result:
  assumes "distinct (map entry_id (collection rag))"
  shows "collection (fst (delete_document f rag))
           = filter (\<lambda>e. map_of (entry_metadata e) ''filename'' \<noteq> Some f) (collection rag)"
    and "chunks_deleted (snd (delete_document f rag))
           = length (filter (\<lambda>e. map_of (entry_metadata e) ''filename'' = Some f) (collection rag))"
proof -
  let ?P = "\<lambda>e. map_of (entry_metadata e) ''filename'' = Some f"
  show "collection (fst (delete_document f rag)) = filter (\<lambda>e. \<not> ?P e) (collection rag)"
  proof (cases "filter ?P (collection rag) = []")
    case True
    then have "filter (\<lambda>e. \<not> ?P e) (collection rag) = collection rag"
      by (simp add: filter_empty_conv)
    with True show ?thesis by (simp add: delete_document_def Let_def)
  next
    case False
    then show ?thesis
      by (simp add: delete_document_def Let_def collection_delete_matching[OF assms])
  qed
  show "chunks_deleted (snd (delete_document f rag)) = length (filter ?P (collection rag))"
    by (simp add: delete_document_def Let_def)
qed

text \<open>
  Claim C9. In a store whose entries have pairwise different ids (the vector store keys
  its entries by id), \<open>delete_document\<close> leaves exactly the entries whose \<open>filename\<close>
  metadata differs from the given identity, in their order, and reports the number of
  entries that carried it; a second delete of the same identity reports 0 and leaves the
  store as the first one left it. Neither call can raise: the result is a value in every
  case.
\<close>

theorem delete_document_idempotent:
  assumes "distinct (map entry_id (collection rag))"
      and "delete_document filename rag = (rag1, r1)"
      and "delete_document filename rag1 = (rag2, r2)"
  shows "collection rag1
           = filter (\<lambda>e. map_of (entry_metadata e) ''filename'' \<noteq> Some filename) (collection rag)
       \<and> chunks_deleted r1
           = length (filter (\<lambda>e. map_of (entry_metadata e) ''filename'' = Some filename)
               (collection rag))
       \<and> chunks_deleted r2 = 0
       \<and> rag2 = rag1"
proof -
  let ?P = "\<lambda>e. map_of (entry_metadata e) ''filename'' = Some filename"
  have c1: "collection rag1 = filter (\<lambda>e. \<not> ?P e) (collection rag)"
    using delete_document_result(1)[OF assms(1), of filename] assms(2) by simp
  have n1: "chunks_deleted r1 = length (filter ?P (collection rag))"
    using delete_document_result(2)[OF assms(1), of filename] assms(2) by simp
  have none: "filter ?P (collection rag1) = []"
    unfolding c1 by (simp add: filter_empty_conv)
  have "delete_document filename rag1
          = (rag1, \<lparr>dr_filename = filename, chunks_deleted = 0, dr_status = ''not_found''\<rparr>)"
    using none by (simp add: delete_document_def Let_def)
  with assms(3) have "rag2 = rag1" "chunks_deleted r2 = 0" by auto
  with c1 n1 show ?thesis by simp
qed

theorem delete_document_idempotent_witness:
  "collection (fst (delete_document ''a.txt'' example_store)) = [store_entry ''b0'' ''b.txt'']
   \<and> chunks_deleted (snd (delete_document ''a.txt'' example_store)) = 2
   \<and> chunks_deleted (snd (delete_document ''a.txt'' (fst (delete_document ''a.txt'' example_store))))
       = 0"
proof -
  have d: "distinct (map entry_id (collection example_store))"
    by (simp add: example_store_def store_entry_def)
  have "collection example_store
          = [store_entry ''a0'' ''a.txt'', store_entry ''b0'' ''b.txt'', store_entry ''a1'' ''a.txt'']"
    by (simp add: example_store_def)
  then show ?thesis
    using delete_document_idempotent[OF d surjective_pairing surjective_pairing, of "''a.txt''"]
    by (simp add: store_entry_def)
qed

section \<open>Categorizing a service\<close>

lemma Max_snd_Cons:
  "Max (snd ` set (a # y # ys)) = max (snd a) (Max (snd ` set (y # ys)))"
  by (simp only: list.set image_insert) (rule Max_insert; simp)

lemma Max_snd_ge: "snd y \<le> Max (snd ` set (y # ys))"
  by (intro Max_ge) auto

lemma max_from_find:
  "find (\<lambda>x. snd x = Max (snd ` set (b # xs))) (b # xs) = Some (max_from b xs)"
proof (induction xs arbitrary: b)
  case Nil
  then show ?case by simp
next
  case (Cons x xs)
  show ?case
  proof (cases "snd x > snd b")
    case True
    have ge: "snd x \<le> Max (snd ` set (x # xs))" by (rule Max_snd_ge)
    have "snd b \<le> Max (snd ` set (x # xs))" using True ge by linarith
    then have M: "Max (snd ` set (b # x # xs)) = Max (snd ` set (x # xs))"
      by (simp only: Max_snd_Cons max_absorb2)
    have "snd b \<noteq> Max (snd ` set (x # xs))" using True ge by linarith
    then show ?thesis using True Cons.IH[of x] unfolding M by simp
  next
    case False
    have ge: "snd b \<le> Max (snd ` set (b # xs))" by (rule Max_snd_ge)
    have "set (b # x # xs) = set (x # b # xs)" by auto
    then have "Max (snd ` set (b # x # xs)) = max (snd x) (Max (snd ` set (b # xs)))"
      by (simp only: Max_snd_Cons)
    moreover have "snd x \<le> Max (snd ` set (b # xs))" using False ge by linarith
    ultimately have M: "Max (snd ` set (b # x # xs)) = Max (snd ` set (b # xs))"
      by (simp only: max_absorb2)
    show ?thesis
    proof (cases "snd b = Max (snd ` set (b # xs))")
      case True
      then show ?thesis using False Cons.IH[of b] unfolding M by simp
    next
      case nb: False
      have "snd b < Max (snd ` set (b # xs))" using ge nb by (rule le_neq_trans)
      with False have "snd x \<noteq> Max (snd ` set (b # xs))" by linarith
      then show ?thesis using False nb Cons.IH[of b] unfolding M by simp
    qed
  qed
qed

lemma max_from_index:
  "\<exists>i < length (b # xs). max_from b xs = (b # xs) ! i
      \<and> (\<forall>j < length (b # xs). snd ((b # xs) ! j) \<le> snd ((b # xs) ! i))
      \<and> (\<forall>j < i. snd ((b # xs) ! j) < snd ((b # xs) ! i))"
proof -
  define ys where "ys = b # xs"
  define M where "M = Max (snd ` set ys)"
  from max_from_find[of b xs] obtain i where i: "i < length ys"
    "snd (ys ! i) = M" "max_from b xs = ys ! i"
    "\<forall>j<i. snd (ys ! j) \<noteq> M"
    unfolding find_Some_iff ys_def M_def by blast
  have le: "snd (ys ! j) \<le> M" if "j < length ys" for j
    unfolding M_def using that by (intro Max_ge) auto
  have lt: "snd (ys ! j) < M" if "j < i" for j
    using le[of j] i(1,4) that by (simp add: le_neq_trans)
  show ?thesis
    unfolding ys_def[symmetric] using i le lt by (intro exI[of _ i]) simp
qed


lemma category_score_count:
  "category_score kws text = length (filter (\<lambda>keyword. py_in keyword text) kws)"
proof -
  have "fold (\<lambda>keyword score. if py_in keyword text then score + 1 else score) kws n
          = n + length (filter (\<lambda>keyword. py_in keyword text) kws)" for n
    by (induction kws arbitrary: n) auto
  then show ?thesis by (simp add: category_score_def)
qed

lemma length_categories: "length categories = 7"
  by (simp add: categories_def categories_rest_def)

lemma category_names_not_other: "i < 7 \<Longrightarrow> fst (categories ! i) \<noteq> category_other"
proof -
  have "\<forall>c \<in> set categories. fst c \<noteq> category_other"
    by (simp add: categories_def categories_first_def categories_rest_def category_other_def)
  moreover assume "i < 7"
  then have "categories ! i \<in> set categories"
    by (intro nth_mem) (simp only: length_categories)
  ultimately show "fst (categories ! i) \<noteq> category_other" by blast
qed

text \<open>
  Claim C7. For every name and description, with the text \<open>(name + " " +
  description).lower()\<close> and the score of a category the number of its pattern keywords
  that occur in the text: \<open>_categorize_service\<close> has seven categories; some category
  \<open>i\<close> has a score no other category exceeds and strictly above the score of every
  category declared before it, and the result is that category's name when its score is
  positive, \<open>Other\<close> (spelled \<open>Ovrig\<close> with an umlaut) otherwise; and the result is
  \<open>Other\<close> exactly when every category scores 0.
\<close>

theorem categorize_service_first_maximal:
  "let text = lower (nm @ '' '' @ descr);
       score = (\<lambda>j. length (filter (\<lambda>keyword. py_in keyword text) (snd (categories ! j))))
   in length categories = 7
      \<and> (\<exists>i<7. (\<forall>j<7. score j \<le> score i) \<and> (\<forall>j<i. score j < score i)
            \<and> categorize_service nm descr
                = (if 0 < score i then fst (categories ! i) else category_other))
      \<and> (categorize_service nm descr = category_other \<longleftrightarrow> (\<forall>j<7. score j = 0))"
proof -
  define t where "t = lower (nm @ '' '' @ descr)"
  define scored :: "string \<times> string list \<Rightarrow> string \<times> nat"
    where "scored = (\<lambda>(c, kws). (c, category_score kws t))"
  define score where
    "score = (\<lambda>j. length (filter (\<lambda>keyword. py_in keyword t) (snd (categories ! j))))"
  define ys where "ys = scored categories_first # map scored categories_rest"
  have ys: "ys = map scored categories" by (simp add: ys_def categories_def)
  have len: "length ys = 7" by (simp add: ys length_categories)
  have nth: "ys ! j = (fst (categories ! j), score j)" if "j < 7" for j
    using that length_categories
    by (simp add: ys scored_def score_def category_score_count split: prod.splits)
  have res: "categorize_service nm descr
               = (let best = max_from (scored categories_first) (map scored categories_rest)
                  in if snd best > 0 then fst best else category_other)"
    by (simp add: categorize_service_def t_def scored_def Let_def)
  obtain i where i: "i < 7" "max_from (scored categories_first) (map scored categories_rest) = ys ! i"
    "\<forall>j<7. snd (ys ! j) \<le> snd (ys ! i)" "\<forall>j<i. snd (ys ! j) < snd (ys ! i)"
    using max_from_index[of "scored categories_first" "map scored categories_rest"]
    unfolding ys_def[symmetric] len by blast
  have mx: "\<forall>j<7. score j \<le> score i" using i(1,3) nth by simp
  have first: "\<forall>j<i. score j < score i" using i(1,4) nth by simp
  have r: "categorize_service nm descr = (if 0 < score i then fst (categories ! i) else category_other)"
    using res i(1,2) nth by (simp add: Let_def)
  have "categorize_service nm descr = category_other \<longleftrightarrow> (\<forall>j<7. score j = 0)"
  proof
    assume "categorize_service nm descr = category_other"
    with r category_names_not_other[OF i(1)] have "score i = 0" by (auto split: if_splits)
    with mx show "\<forall>j<7. score j = 0" by auto
  next
    assume "\<forall>j<7. score j = 0"
    with i(1) have "score i = 0" by blast
    with r show "categorize_service nm descr = category_other" by simp
  qed
  moreover have "\<exists>i<7. (\<forall>j<7. score j \<le> score i) \<and> (\<forall>j<i. score j < score i)
            \<and> categorize_service nm descr
                = (if 0 < score i then fst (categories ! i) else category_other)"
    using mx first r i(1) by blast
  ultimately show ?thesis
    unfolding Let_def t_def[symmetric] score_def
    using length_categories by (intro conjI)
qed

text \<open>\<open>Wifi\<close> and \<open>buss\<close> give the first and the fourth category one hit each, and
  the first wins; a second transport keyword makes the fourth win; no hit gives \<open>Other\<close>.\<close>

theorem categorize_service_first_maximal_witness:
  "categorize_service ''Wifi'' ''buss'' = ''IT och Digital''
   \<and> categorize_service ''Wifi'' ''buss och parkering'' = ''Transport''
   \<and> categorize_service ''Xyz'' ''qqq'' = category_other"
proof -
  have e1: "categorize_service ''Wifi'' ''buss'' = ''IT och Digital''" by code_simp
  have e2: "categorize_service ''Wifi'' ''buss och parkering'' = ''Transport''" by code_simp
  have e3: "categorize_service ''Xyz'' ''qqq'' = category_other" by code_simp
  show ?thesis
    using categorize_service_first_maximal[of "''Wifi''" "''buss''"]
      categorize_service_first_maximal[of "''Wifi''" "''buss och parkering''"]
      categorize_service_first_maximal[of "''Xyz''" "''qqq''"]
    by (simp only: e1 e2 e3)
qed

section \<open>Extracting keywords\<close>

lemma lower_char_idem: "lower_char (lower_char c) = lower_char c"
proof -
  have lt: "(of_char c :: nat) < 256" by simp
  show ?thesis
    using lt unfolding lower_char_def Let_def
    by (auto simp: of_char_of)
qed

lemma lower_char_space: "lower_char (CHR '' '') = CHR '' ''"
  by (simp add: lower_char_def)

lemma lower_clean_lower: "lower_char (clean_char (lower_char c)) = clean_char (lower_char c)"
  by (simp add: clean_char_def lower_char_idem lower_char_space)

lemma split_from_chars:
  "w \<in> set (split_from cur cs) \<Longrightarrow> set w \<subseteq> set cur \<union> set cs"
  by (induction cur cs rule: split_from.induct) (auto split: if_splits)

lemma py_split_chars: "w \<in> set (py_split t) \<Longrightarrow> set w \<subseteq> set t"
  using split_from_chars[of w "[]" t] by (simp add: py_split_def)

lemma word_lowercased:
  assumes "w \<in> set (py_split (map clean_char (lower t)))"
  shows "lower w = w"
proof -
  have "\<forall>c \<in> set w. lower_char c = c"
  proof
    fix c assume "c \<in> set w"
    with py_split_chars[OF assms] obtain d where "c = clean_char (lower_char d)"
      by (auto simp: lower_def)
    then show "lower_char c = c" by (simp add: lower_clean_lower)
  qed
  then show ?thesis unfolding lower_def by (simp add: map_idI)
qed

lemma py_take_10: "py_take 10 xs = take 10 xs"
  by (simp add: py_take_def)

lemma example_words:
  "filter (\<lambda>word. length word \<ge> 3 \<and> word \<notin> set stop_words)
     (py_split (map clean_char (lower example_title)))
   = [''digital'', c_auml # ''rendehantering'', ''medborgare'']"
  by code_simp

text \<open>
  Claim C8. Whatever order \<open>list(set(...))\<close> yields, every keyword \<open>_extract_keywords\<close>
  returns is its own lowercase form, has at least 3 characters and is no stop word; the
  keywords returned are pairwise different and at most 10; and for the example title the
  keywords returned are exactly \<open>digital\<close>, \<open>arendehantering\<close> (with its umlaut) and
  \<open>medborgare\<close>, the stop word \<open>for\<close> (with its umlaut) not among them.
\<close>

theorem extract_keywords_filtered:
  assumes "set_listing set_list"
  shows "(\<forall>w \<in> set (extract_keywords set_list text).
            lower w = w \<and> 3 \<le> length w \<and> w \<notin> set stop_words)
       \<and> distinct (extract_keywords set_list text)
       \<and> length (extract_keywords set_list text) \<le> 10
       \<and> set (extract_keywords set_list example_title)
           = {''digital'', c_auml # ''rendehantering'', ''medborgare''}
       \<and> ''f'' @ c_ouml # ''r'' \<notin> set (extract_keywords set_list example_title)"
proof -
  define kws where "kws = (\<lambda>t. filter (\<lambda>word. length word \<ge> 3 \<and> word \<notin> set stop_words)
     (py_split (map clean_char (lower t))))"
  have ek: "extract_keywords set_list t = take 10 (set_list (kws t))" for t
    by (simp add: extract_keywords_def Let_def py_take_10 kws_def)
  have sl: "set (set_list xs) = set xs" "distinct (set_list xs)" for xs
    using assms by (simp_all add: set_listing_def)
  have 1: "\<forall>w \<in> set (extract_keywords set_list text).
            lower w = w \<and> 3 \<le> length w \<and> w \<notin> set stop_words"
  proof
    fix w assume "w \<in> set (extract_keywords set_list text)"
    then have "w \<in> set (kws text)" unfolding ek using sl(1) by (auto dest: in_set_takeD)
    then show "lower w = w \<and> 3 \<le> length w \<and> w \<notin> set stop_words"
      unfolding kws_def by (auto intro: word_lowercased)
  qed
  have 2: "distinct (extract_keywords set_list text)" unfolding ek by (simp add: sl(2))
  have 3: "length (extract_keywords set_list text) \<le> 10" unfolding ek by simp
  have k: "kws example_title = [''digital'', c_auml # ''rendehantering'', ''medborgare'']"
    unfolding kws_def by (rule example_words)
  have "length (set_list (kws example_title)) = card (set (kws example_title))"
    using sl[of "kws example_title"] by (metis distinct_card)
  also have "\<dots> = 3" unfolding k by simp
  finally have "take 10 (set_list (kws example_title)) = set_list (kws example_title)" by simp
  then have 4: "set (extract_keywords set_list example_title)
           = {''digital'', c_auml # ''rendehantering'', ''medborgare''}"
    unfolding ek using sl(1)[of "kws example_title"] k by auto
  have 5: "''f'' @ c_ouml # ''r'' \<notin> set (extract_keywords set_list example_title)"
    unfolding 4 by simp
  from 1 2 3 4 5 show ?thesis by (intro conjI)
qed

lemma set_listing_remdups: "set_listing remdups"
  by (simp add: set_listing_def)

theorem extract_keywords_filtered_witness:
  "extract_keywords remdups example_title = [''digital'', c_auml # ''rendehantering'', ''medborgare'']
   \<and> lower ''digital'' = ''digital'' \<and> 3 \<le> length ''digital''
   \<and> ''digital'' \<notin> set stop_words"
proof -
  have e: "extract_keywords remdups example_title
             = [''digital'', c_auml # ''rendehantering'', ''medborgare'']"
    by code_simp
  have s: "''digital'' \<notin> set stop_words" by code_simp
  have l: "lower ''digital'' = ''digital''" by code_simp
  show ?thesis
    using extract_keywords_filtered[OF set_listing_remdups, of example_title] e s l
    by simp
qed

section \<open>Ingesting the catalog\<close>






section \<open>Scores of the keyword mapper\<close>

lemma bump_keys: "map fst (bump i scores) = (if i \<in> fst ` set scores then map fst scores else map fst scores @ [i])"
  by (induction scores) (auto split: if_splits)

lemma bump_distinct: "distinct (map fst scores) \<Longrightarrow> distinct (map fst (bump i scores))"
  by (simp add: bump_keys)

lemma bump_lookup:
  "map_of (bump i scores) j
     = (if i = j then Some (case map_of scores j of None \<Rightarrow> 1 | Some h \<Rightarrow> h + 1)
        else map_of scores j)"
  by (induction scores) auto

lemma hits_bump: "hits_of (bump i scores) j = hits_of scores j + (if i = j then 1 else 0)"
  by (simp add: hits_of_def bump_lookup split: option.splits)

lemma hits_fold_bump: "hits_of (fold bump ps scores) j = hits_of scores j + count_list ps j"
  by (induction ps arbitrary: scores) (auto simp: hits_bump)

lemma fold_bump_distinct:
  "distinct (map fst scores) \<Longrightarrow> distinct (map fst (fold bump ps scores))"
  by (induction ps arbitrary: scores) (auto simp: bump_distinct)

lemma bump_positive: "\<forall>(i, h) \<in> set scores. 0 < h \<Longrightarrow> \<forall>(i, h) \<in> set (bump k scores). 0 < h"
  by (induction scores) (auto split: if_splits)

lemma score_keyword_postings: "score_keyword idx kw scores = fold bump (postings idx kw) scores"
  by (simp add: score_keyword_def postings_def split: option.splits)

lemma hits_fold_keywords:
  "hits_of (fold (score_keyword idx) kws scores) j
     = hits_of scores j + sum_list (map (\<lambda>kw. count_list (postings idx kw) j) kws)"
  by (induction kws arbitrary: scores) (auto simp: score_keyword_postings hits_fold_bump)

lemma fold_keywords_distinct:
  "distinct (map fst scores) \<Longrightarrow> distinct (map fst (fold (score_keyword idx) kws scores))"
  by (induction kws arbitrary: scores) (auto simp: score_keyword_postings fold_bump_distinct)

lemma entry_hits: "distinct (map fst scores) \<Longrightarrow> (i, h) \<in> set scores \<Longrightarrow> hits_of scores i = h"
  by (simp add: hits_of_def)

lemma set_py_take: "set (py_take k xs) \<subseteq> set xs"
  by (auto simp: py_take_def dest: in_set_takeD)

lemma collect_results_entries:
  "collect_results svcs n entries = Inr results \<Longrightarrow> (svc, sc) \<in> set results \<Longrightarrow>
   \<exists>i h. (i, h) \<in> set entries \<and> i < length svcs \<and> svc = svcs ! i \<and> sc = real h / real (max n 1)"
proof (induction entries arbitrary: results)
  case Nil
  then show ?case by simp
next
  case (Cons e entries)
  obtain i h where e: "e = (i, h)" by (cases e)
  from Cons.prems(1) obtain rest where
    r: "i < length svcs" "collect_results svcs n entries = Inr rest"
       "results = (svcs ! i, real h / real (max n 1)) # rest"
    unfolding e by (auto split: if_splits sum.splits)
  show ?case
  proof (cases "(svc, sc) \<in> set rest")
    case True
    from Cons.IH[OF r(2) True] show ?thesis by auto
  next
    case False
    with Cons.prems(2) r(3) have "svc = svcs ! i" "sc = real h / real (max n 1)" by auto
    with r(1) e show ?thesis by auto
  qed
qed

lemma count_distinct_le_1: "distinct ps \<Longrightarrow> count_list ps j \<le> 1"
  by (induction ps) auto

lemma sum_list_le_length:
  "(\<And>x. x \<in> set xs \<Longrightarrow> f x \<le> (1::nat)) \<Longrightarrow> sum_list (map f xs) \<le> length xs"
proof (induction xs)
  case Nil
  then show ?case by simp
next
  case (Cons a xs)
  have "f a \<le> 1" using Cons.prems by simp
  moreover have "sum_list (map f xs) \<le> length xs" using Cons by simp
  ultimately show ?case by simp
qed

text \<open>
  Claim C4, as the code has it. Every pair \<open>find_matching_services\<close> returns holds a
  loaded service, at some position \<open>i\<close>, and the score: the number of times \<open>i\<close> is
  filed under the idea's keywords, summed over the keywords, divided by
  \<open>max(len(idea_keywords), 1)\<close>. The score is never negative. It is at most 1 when no
  keyword of the index files a position twice.
\<close>

theorem normalized_score_formula:
  assumes "find_matching_services set_list m idea_text max_results = Inr results"
      and "(svc, sc) \<in> set results"
      and "kws = extract_keywords set_list idea_text"
  shows "(\<exists>i < length (services m). svc = services m ! i
            \<and> sc = real (sum_list (map (\<lambda>kw. count_list
                             (case service_index m kw of None \<Rightarrow> [] | Some ps \<Rightarrow> ps) i) kws))
                   / real (max (length kws) 1))
       \<and> 0 \<le> sc
       \<and> ((\<forall>kw ps. service_index m kw = Some ps \<longrightarrow> distinct ps) \<longrightarrow> sc \<le> 1)"
proof -
  define scores where "scores = fold (score_keyword (service_index m)) kws []"
  have ld: "loaded m" using assms(1,2) by (auto simp: find_matching_services_def split: if_splits)
  then have c: "collect_results (services m) (length kws)
           (py_take max_results (sort_key (\<lambda>x. - int (snd x)) scores)) = Inr results"
    using assms(1) by (simp add: find_matching_services_def Let_def scores_def assms(3))
  from collect_results_entries[OF c assms(2)] obtain i h where
    ih: "(i, h) \<in> set (py_take max_results (sort_key (\<lambda>x. - int (snd x)) scores))"
        "i < length (services m)" "svc = services m ! i"
        "sc = real h / real (max (length kws) 1)"
    by blast
  from ih(1) have mem: "(i, h) \<in> set scores" using set_py_take by fastforce
  have d: "distinct (map fst scores)"
    unfolding scores_def by (rule fold_keywords_distinct) simp
  have h: "h = sum_list (map (\<lambda>kw. count_list (postings (service_index m) kw) i) kws)"
    using entry_hits[OF d mem] hits_fold_keywords[of "service_index m" kws "[]" i]
    by (simp add: scores_def hits_of_def)
  have 1: "\<exists>i < length (services m). svc = services m ! i
            \<and> sc = real (sum_list (map (\<lambda>kw. count_list
                             (case service_index m kw of None \<Rightarrow> [] | Some ps \<Rightarrow> ps) i) kws))
                   / real (max (length kws) 1)"
    using ih(2,3,4) h unfolding postings_def by blast
  have 2: "0 \<le> sc" unfolding ih(4) by simp
  have 3: "sc \<le> 1" if dp: "\<forall>kw ps. service_index m kw = Some ps \<longrightarrow> distinct ps"
  proof -
    have "distinct (postings (service_index m) kw)" for kw
      using dp by (auto simp: postings_def split: option.splits)
    then have "count_list (postings (service_index m) kw) i \<le> 1" for kw
      by (rule count_distinct_le_1)
    then have "h \<le> length kws" unfolding h by (intro sum_list_le_length) simp
    then have "real h \<le> real (max (length kws) 1)" by simp
    then show ?thesis unfolding ih(4) by (simp add: divide_le_eq_1)
  qed
  from 1 2 3 show ?thesis by blast
qed

theorem normalized_score_formula_witness:
  "find_matching_services remdups system_mapper ''cykel och buss'' 10
     = Inr [(system_service, 1 / 2)]
   \<and> (0::real) \<le> 1 / 2 \<and> (1 / 2 :: real) \<le> 1"
proof -
  have e: "find_matching_services remdups system_mapper ''cykel och buss'' 10
             = Inr [(system_service, 1 / 2)]"
    by code_simp
  have mem: "(system_service, 1 / 2) \<in> set [(system_service, 1 / 2 :: real)]" by simp
  have d: "\<forall>kw ps. service_index system_mapper kw = Some ps \<longrightarrow> distinct ps"
    by (auto simp: system_mapper_def split: if_splits)
  from normalized_score_formula[OF e mem refl] d show ?thesis
    using e by blast
qed

text \<open>
  Claim C4, as the spec states it, bounds every score by 1. The example service is filed
  twice under \<open>cykelparkering\<close>, as a keyword and as a word of its name; the idea
  \<open>Cykelparkering\<close> has that one keyword and gets the score 2.
\<close>

theorem score_above_one:
  "find_matching_services remdups example_keyword_mapper ''Cykelparkering'' 10
     = Inr [(example_service, 2)]
   \<and> service_index example_keyword_mapper ''cykelparkering'' = Some [0, 0]"
  unfolding example_keyword_mapper_def by code_simp

section \<open>Termination of the chunker\<close>

lemma py_in_iff: "py_in sub t \<longleftrightarrow> (\<exists>ps ss. t = ps @ sub @ ss)"
proof (induction t)
  case Nil
  then show ?case by auto
next
  case (Cons c cs)
  have pre: "take (length sub) (c # cs) = sub \<longleftrightarrow> (\<exists>ss. c # cs = sub @ ss)"
    by (metis append_eq_conv_conj append_take_drop_id)
  have "(\<exists>ps ss. c # cs = ps @ sub @ ss)
      \<longleftrightarrow> (\<exists>ss. c # cs = sub @ ss) \<or> (\<exists>ps ss. cs = ps @ sub @ ss)"
  proof
    assume "\<exists>ps ss. c # cs = ps @ sub @ ss"
    then obtain ps ss where e: "c # cs = ps @ sub @ ss" by blast
    show "(\<exists>ss. c # cs = sub @ ss) \<or> (\<exists>ps ss. cs = ps @ sub @ ss)"
    proof (cases ps)
      case Nil
      with e show ?thesis by auto
    next
      case (Cons p ps')
      with e have "cs = ps' @ sub @ ss" by simp
      then show ?thesis by blast
    qed
  next
    assume "(\<exists>ss. c # cs = sub @ ss) \<or> (\<exists>ps ss. cs = ps @ sub @ ss)"
    then show "\<exists>ps ss. c # cs = ps @ sub @ ss"
    proof
      assume "\<exists>ss. c # cs = sub @ ss"
      then obtain ss where "c # cs = [] @ sub @ ss" by auto
      then show ?thesis by blast
    next
      assume "\<exists>ps ss. cs = ps @ sub @ ss"
      then obtain ps ss where "c # cs = (c # ps) @ sub @ ss" by auto
      then show ?thesis by blast
    qed
  qed
  with pre Cons.IH show ?case by simp
qed

lemma occurrence_py_in:
  assumes "take (length sub) (drop p t) = sub"
  shows "py_in sub t"
proof -
  have "t = take p t @ (take (length sub) (drop p t) @ drop (length sub) (drop p t))"
    by (simp only: append_take_drop_id)
  then have "t = take p t @ sub @ drop (length sub) (drop p t)"
    by (simp only: assms)
  then show ?thesis unfolding py_in_iff by blast
qed

lemma py_rfind_absent: "\<not> py_in sub t \<Longrightarrow> py_rfind t sub i j = - 1"
proof -
  assume "\<not> py_in sub t"
  then have "filter (\<lambda>p. take (length sub) (drop p t) = sub) ps = []" for ps
    by (auto simp: filter_empty_conv dest: occurrence_py_in)
  then show ?thesis by (simp add: py_rfind_def Let_def)
qed

subsection \<open>Texts on which the loop does not end\<close>

text \<open>
  The text \<open>hi_text\<close> holds one sentence terminator, at position 2, and is its own
  normalized form.
\<close>

lemma py_in_chars: "py_in sub t \<Longrightarrow> set sub \<subseteq> set t"
  unfolding py_in_iff by auto

lemma hi_text_length: "length hi_text = 1204"
  by (simp add: hi_text_def)

lemma hi_text_chars: "set hi_text = {CHR ''H'', CHR ''i'', CHR ''.'', CHR '' '', CHR ''a''}"
  by (auto simp: hi_text_def)

lemma hi_text_nth: "p < 1204 \<Longrightarrow> hi_text ! p = CHR ''.'' \<Longrightarrow> p = 2"
proof -
  assume p: "p < 1204" and d: "hi_text ! p = CHR ''.''"
  show "p = 2"
  proof (cases "p < 4")
    case True
    then consider "p = 0" | "p = 1" | "p = 2" | "p = 3" by linarith
    then show ?thesis using d by cases (simp_all add: hi_text_def)
  next
    case False
    then obtain q where q: "p = length ''Hi. '' + q" "q < 1200"
      using p by (intro that[of "p - 4"]) simp_all
    have "hi_text ! p = replicate 1200 (CHR ''a'') ! q"
      unfolding hi_text_def q(1) by (rule nth_append_length_plus)
    also have "\<dots> = CHR ''a''" using q(2) by (rule nth_replicate)
    finally show ?thesis using d by simp
  qed
qed

lemma hi_text_sentence: "take 2 (drop p hi_text) = ''. '' \<longleftrightarrow> p = 2"
proof
  assume m: "take 2 (drop p hi_text) = ''. ''"
  then have ne: "drop p hi_text \<noteq> []" by auto
  then have p: "p < 1204" using hi_text_length by simp
  have "hd (drop p hi_text) = CHR ''.''"
    using m ne by (cases "drop p hi_text") auto
  then have "hi_text ! p = CHR ''.''"
    using p hi_text_length by (simp add: hd_drop_conv_nth)
  with p show "p = 2" by (rule hi_text_nth)
next
  assume "p = 2"
  then show "take 2 (drop p hi_text) = ''. ''" by (simp add: hi_text_def)
qed

lemma collapse_ws_letters: "collapse_ws b (replicate n (CHR ''a'')) = replicate n (CHR ''a'')"
  by (induction n arbitrary: b) (simp_all add: is_space_def)

lemma hi_text_normal: "py_strip (collapse_ws False hi_text) = hi_text"
proof -
  have c: "collapse_ws False hi_text = hi_text"
    by (simp add: hi_text_def is_space_def collapse_ws_letters)
  have "replicate 1200 (CHR ''a'') = CHR ''a'' # replicate 1199 (CHR ''a'')"
    by (simp add: replicate_Suc[symmetric] del: replicate_Suc)
  then have r: "rev hi_text = CHR ''a'' # replicate 1199 (CHR ''a'') @ rev ''Hi. ''"
    by (simp add: hi_text_def replicate_append_same del: replicate_Suc)
  have 1: "dropWhile is_space hi_text = hi_text" by (simp add: hi_text_def is_space_def)
  have 2: "dropWhile is_space (rev hi_text) = rev hi_text"
    unfolding r by (simp add: is_space_def)
  show ?thesis unfolding c py_strip_def 1 2 by simp
qed

text \<open>
  The searches of the first three iterations: the window from 0 holds the terminator at
  position 2; the windows from -196 and from -201 are empty, because \<open>rfind\<close> counts a
  negative \<open>start\<close> from the end of the text.
\<close>

lemma hi_rfind_first: "py_rfind hi_text ''. '' 0 1000 = 2"
proof -
  define found where "found = filter (\<lambda>p. take 2 (drop p hi_text) = ''. '') [0 ..< 999]"
  have l: "length ''. '' = 2" by simp
  have r: "py_rfind hi_text ''. '' 0 1000 = (if found = [] then - 1 else int (last found))"
    unfolding py_rfind_def Let_def l hi_text_length found_def
    by (simp add: clip_index_def del: upt_rec_numeral)
  have "2 \<in> set found" by (simp add: found_def hi_text_sentence del: upt_rec_numeral)
  then have ne: "found \<noteq> []" by auto
  then have "last found \<in> set found" by simp
  then have "last found = 2" by (simp add: found_def hi_text_sentence del: upt_rec_numeral)
  with ne r show ?thesis by simp
qed

lemma hi_rfind_negative:
  "length sub = 2 \<Longrightarrow> py_rfind hi_text sub (- 196) 804 = - 1"
  "length sub = 2 \<Longrightarrow> py_rfind hi_text sub (- 201) 799 = - 1"
  by (simp_all add: py_rfind_def Let_def clip_index_def hi_text_length del: upt_rec_numeral)

lemma hi_text_absent:
  assumes "c \<in> set sub" and "c \<notin> set hi_text"
  shows "py_rfind hi_text sub i j = - 1"
proof (rule py_rfind_absent)
  show "\<not> py_in sub hi_text" using py_in_chars[of sub hi_text] assms by blast
qed

lemma hi_other_endings:
  "py_rfind hi_text ''! '' i j = - 1" "py_rfind hi_text ''? '' i j = - 1"
  "py_rfind hi_text [CHR ''.'', c_newline] i j = - 1"
  "py_rfind hi_text [CHR ''!'', c_newline] i j = - 1"
  "py_rfind hi_text [CHR ''?'', c_newline] i j = - 1"
proof -
  show "py_rfind hi_text ''! '' i j = - 1"
    by (rule hi_text_absent[of "CHR ''!''"]) (simp_all add: hi_text_chars)
  show "py_rfind hi_text ''? '' i j = - 1"
    by (rule hi_text_absent[of "CHR ''?''"]) (simp_all add: hi_text_chars)
  show "py_rfind hi_text [CHR ''.'', c_newline] i j = - 1"
    by (rule hi_text_absent[of c_newline]) (simp_all add: hi_text_chars)
  show "py_rfind hi_text [CHR ''!'', c_newline] i j = - 1"
    by (rule hi_text_absent[of c_newline]) (simp_all add: hi_text_chars)
  show "py_rfind hi_text [CHR ''?'', c_newline] i j = - 1"
    by (rule hi_text_absent[of c_newline]) (simp_all add: hi_text_chars)
qed

lemma hi_window_0: "window_end DocumentProcessor_default hi_text 0 = 4"
  by (simp add: window_end_def DocumentProcessor_default_def hi_text_length Let_def
      last_sentence_end_def sentence_endings_def hi_rfind_first hi_other_endings)

lemma hi_window_negative:
  "window_end DocumentProcessor_default hi_text (- 196) = - 1"
  "window_end DocumentProcessor_default hi_text (- 201) = - 1"
  by (simp_all add: window_end_def DocumentProcessor_default_def hi_text_length Let_def
      last_sentence_end_def sentence_endings_def hi_rfind_negative)

lemma hi_loop_negative:
  "chunk_loop fuel DocumentProcessor_default hi_text (- 201) chunks = None"
proof (induction fuel arbitrary: chunks)
  case 0
  then show ?case by (simp add: hi_text_length)
next
  case (Suc fuel)
  have "chunk_overlap DocumentProcessor_default = 200" by (simp add: DocumentProcessor_default_def)
  then show ?case by (simp add: hi_text_length Let_def hi_window_negative Suc.IH)
qed

lemma hi_loop: "chunk_loop fuel DocumentProcessor_default hi_text 0 chunks = None"
proof -
  have o: "chunk_overlap DocumentProcessor_default = 200" by (simp add: DocumentProcessor_default_def)
  consider "fuel = 0" | "fuel = Suc 0" | f where "fuel = Suc (Suc f)"
    by (cases fuel) (auto, metis not0_implies_Suc)
  then show ?thesis
  proof cases
    case 1
    then show ?thesis by (simp add: hi_text_length)
  next
    case 2
    then show ?thesis by (simp add: hi_text_length Let_def hi_window_0 o)
  next
    case 3
    then show ?thesis
      by (simp add: hi_text_length Let_def hi_window_0 hi_window_negative o hi_loop_negative)
  qed
qed

lemma hi_chunk_text: "chunk_text fuel DocumentProcessor_default hi_text = None"
proof -
  have "chunk_size DocumentProcessor_default = 1000" by (simp add: DocumentProcessor_default_def)
  then show ?thesis
    by (simp add: chunk_text_def Let_def hi_text_normal hi_text_length hi_loop)
qed

text \<open>
  With size 10 and overlap 4 the first window of \<open>Hi. aaaaaaaaaaaaaaaaaaaa\<close> is cut back
  to position 4, the end of its only sentence, and \<open>start\<close> becomes 4 - 4 = 0 again.
\<close>

lemma stuck_window: "window_end \<lparr>chunk_size = 10, chunk_overlap = 4\<rparr> stuck_text 0 = 4"
  by code_simp

lemma chunk_loop_stuck:
  "chunk_loop fuel \<lparr>chunk_size = 10, chunk_overlap = 4\<rparr> stuck_text 0 chunks = None"
proof (induction fuel arbitrary: chunks)
  case 0
  then show ?case by (simp add: stuck_text_def)
next
  case (Suc fuel)
  have "(0::int) < int (length stuck_text)" by (simp add: stuck_text_def)
  then show ?case by (simp add: Let_def stuck_window Suc.IH)
qed

lemma chunk_text_stuck:
  "chunk_text fuel \<lparr>chunk_size = 10, chunk_overlap = 4\<rparr> stuck_text = None"
proof -
  have n: "py_strip (collapse_ws False stuck_text) = stuck_text" by code_simp
  have "\<not> int (length stuck_text) \<le> 10" by (simp add: stuck_text_def)
  then show ?thesis by (simp add: chunk_text_def Let_def n chunk_loop_stuck)
qed

text \<open>
  Claim C2 says that for every text of length \<open>L\<close>, every chunk size above 0 and every
  overlap from 0 up to below the size, \<open>chunk_text\<close> ends within
  \<open>ceil(L / (size - overlap))\<close> iterations of its loop. On the following inputs the code
  does not end at all. With the constructor's defaults, size 1000 and overlap 200, the
  text \<open>Hi. \<close> followed by 1200 letters \<open>a\<close> is its own normalized form, has length 1204
  and the bound 2. Its first window is cut back to position 4, the end of its only
  sentence, so \<open>start\<close> becomes 4 - 200 = -196; from a negative \<open>start\<close> no sentence end
  is found, \<open>last_sentence = -1\<close> still exceeds \<open>start\<close> and becomes the end of the
  chunk, and \<open>start\<close> becomes -1 - 200 = -201 and remains there. Whatever the number of
  iterations allowed, the loop has not ended. With size 10 and overlap 4 the text
  \<open>Hi. aaaaaaaaaaaaaaaaaaaa\<close> returns \<open>start\<close> to 0 in every iteration.
\<close>

theorem chunk_text_never_returns:
  "py_strip (collapse_ws False hi_text) = hi_text
   \<and> length hi_text = 1204
   \<and> nat \<lceil>real (length hi_text)
           / real_of_int (chunk_size DocumentProcessor_default
                          - chunk_overlap DocumentProcessor_default)\<rceil> = 2
   \<and> window_end DocumentProcessor_default hi_text 0
       - chunk_overlap DocumentProcessor_default = - 196
   \<and> window_end DocumentProcessor_default hi_text (- 196)
       - chunk_overlap DocumentProcessor_default = - 201
   \<and> window_end DocumentProcessor_default hi_text (- 201)
       - chunk_overlap DocumentProcessor_default = - 201
   \<and> chunk_text fuel DocumentProcessor_default hi_text = None
   \<and> chunk_text fuel \<lparr>chunk_size = 10, chunk_overlap = 4\<rparr> stuck_text = None"
proof -
  have o: "chunk_overlap DocumentProcessor_default = 200"
    by (simp add: DocumentProcessor_default_def)
  have s: "chunk_size DocumentProcessor_default = 1000"
    by (simp add: DocumentProcessor_default_def)
  have b: "nat \<lceil>real (length hi_text)
           / real_of_int (chunk_size DocumentProcessor_default
                          - chunk_overlap DocumentProcessor_default)\<rceil> = 2"
    unfolding hi_text_length o s by simp
  have 1: "window_end DocumentProcessor_default hi_text 0
       - chunk_overlap DocumentProcessor_default = - 196"
    unfolding hi_window_0 o by simp
  have 2: "window_end DocumentProcessor_default hi_text (- 196)
       - chunk_overlap DocumentProcessor_default = - 201"
    unfolding hi_window_negative o by simp
  have 3: "window_end DocumentProcessor_default hi_text (- 201)
       - chunk_overlap DocumentProcessor_default = - 201"
    unfolding hi_window_negative o by simp
  from hi_text_normal hi_text_length b 1 2 3 hi_chunk_text[of fuel] chunk_text_stuck[of fuel]
  show ?thesis by (intro conjI)
qed

subsection \<open>Texts without a sentence terminator\<close>

lemma last_sentence_end_absent:
  assumes "\<forall>ending \<in> set sentence_endings. \<not> py_in ending t"
  shows "last_sentence_end t start stop = - 1"
proof -
  have "fold (\<lambda>ending last_sentence.
             (let pos = py_rfind t ending start stop
              in if pos > last_sentence then pos + int (length ending) else last_sentence))
       es (- 1) = - 1" if "\<forall>ending \<in> set es. \<not> py_in ending t" for es
    using that by (induction es) (simp_all add: py_rfind_absent)
  from this[OF assms] show ?thesis by (simp add: last_sentence_end_def)
qed

lemma window_end_absent:
  assumes "\<forall>ending \<in> set sentence_endings. \<not> py_in ending t" and "0 \<le> start"
  shows "window_end dp t start = start + chunk_size dp"
  using assms(2) by (simp add: window_end_def Let_def last_sentence_end_absent[OF assms(1)])

lemma chunk_loop_terminates:
  assumes "\<forall>ending \<in> set sentence_endings. \<not> py_in ending t"
      and "chunk_overlap dp < chunk_size dp"
      and "0 \<le> start"
      and "int (length t) - start \<le> int fuel * (chunk_size dp - chunk_overlap dp)"
  shows "\<exists>chunks'. chunk_loop fuel dp t start chunks = Some chunks'"
  using assms(3,4)
proof (induction fuel arbitrary: start chunks)
  case 0
  then show ?case by simp
next
  case (Suc fuel)
  show ?case
  proof (cases "start < int (length t)")
    case False
    then show ?thesis by simp
  next
    case True
    let ?next = "start + chunk_size dp - chunk_overlap dp"
    have n0: "0 \<le> ?next" using Suc.prems(1) assms(2) by simp
    have "int (length t) - ?next \<le> int fuel * (chunk_size dp - chunk_overlap dp)"
      using Suc.prems(2) by (simp add: algebra_simps)
    from Suc.IH[OF n0 this] show ?thesis
      using True by (simp add: Let_def window_end_absent[OF assms(1) Suc.prems(1)])
  qed
qed

text \<open>
  Where the normalized text, of length \<open>L\<close>, holds none of the sentence terminators, no
  window is cut back: for every chunk size above 0 and every overlap from 0 up to below
  the size, \<open>chunk_text\<close> returns, its loop making at most \<open>ceil(L / (size - overlap))\<close>
  iterations.
\<close>

lemma chunk_text_terminates:
  assumes "0 < chunk_size dp" and "0 \<le> chunk_overlap dp"
      and "chunk_overlap dp < chunk_size dp"
      and "t = py_strip (collapse_ws False raw)"
      and "\<forall>ending \<in> set sentence_endings. \<not> py_in ending t"
      and "fuel = nat \<lceil>real (length t) / real_of_int (chunk_size dp - chunk_overlap dp)\<rceil>"
  shows "\<exists>chunks. chunk_text fuel dp raw = Some chunks"
proof (cases "int (length t) \<le> chunk_size dp")
  case True
  then show ?thesis by (simp add: chunk_text_def Let_def assms(4)[symmetric])
next
  case False
  define d where "d = chunk_size dp - chunk_overlap dp"
  have d: "0 < d" using assms(3) by (simp add: d_def)
  have "real (length t) / real_of_int d \<le> real_of_int \<lceil>real (length t) / real_of_int d\<rceil>"
    by (rule le_of_int_ceiling)
  also have "\<dots> \<le> real fuel" unfolding assms(6) d_def by simp
  finally have "real (length t) \<le> real fuel * real_of_int d"
    using d by (simp add: pos_divide_le_eq)
  then have "int (length t) \<le> int fuel * d"
    by (metis of_int_le_iff of_int_mult of_int_of_nat_eq)
  then have "int (length t) - 0 \<le> int fuel * (chunk_size dp - chunk_overlap dp)"
    by (simp add: d_def)
  from chunk_loop_terminates[OF assms(5,3) _ this, of "[]"]
  obtain chunks where "chunk_loop fuel dp t 0 [] = Some chunks" by auto
  with False show ?thesis by (simp add: chunk_text_def Let_def assms(4)[symmetric])
qed

lemma chunk_text_terminates_example:
  "chunk_text 3 \<lparr>chunk_size = 10, chunk_overlap = 2\<rparr> plain_text
     = Some [''aaaaaaaaaa'', ''aaaaaaaaaa'', ''aaaaa'']
   \<and> length plain_text = 21
   \<and> nat \<lceil>real (length plain_text) / real_of_int (10 - 2)\<rceil> = 3"
proof -
  let ?dp = "\<lparr>chunk_size = 10, chunk_overlap = 2\<rparr>"
  have n: "plain_text = py_strip (collapse_ws False plain_text)" by code_simp
  have a: "\<forall>ending \<in> set sentence_endings. \<not> py_in ending plain_text" by code_simp
  have l: "length plain_text = 21" by (simp add: plain_text_def)
  have c: "nat \<lceil>real (length plain_text) / real_of_int (10 - 2)\<rceil> = 3"
    unfolding l by simp
  have f: "(3::nat) = nat \<lceil>real (length plain_text)
                             / real_of_int (chunk_size ?dp - chunk_overlap ?dp)\<rceil>"
    using c by simp
  have e: "chunk_text 3 ?dp plain_text = Some [''aaaaaaaaaa'', ''aaaaaaaaaa'', ''aaaaa'']"
    by code_simp
  have s1: "0 < chunk_size ?dp" by simp
  have s2: "0 \<le> chunk_overlap ?dp" by simp
  have s3: "chunk_overlap ?dp < chunk_size ?dp" by simp
  from chunk_text_terminates[OF s1 s2 s3 n a f] e l c show ?thesis
    by (intro conjI)
qed

subsection \<open>The bound where the loop ends\<close>

text \<open>
  The bound \<open>ceil(L / (size - overlap))\<close> also fails where the loop ends. With size 10
  and overlap 0 the text \<open>a. bbbbbbbbbbbbbbbbb\<close> has length 20 and the bound 2: the first
  window is cut back to the end of its sentence, and the loop is still running after 2
  iterations and ends with the third. With size 5 and overlap 5 the first iteration
  leaves \<open>start\<close> at 0, and the loop is still running after 4 iterations.
\<close>

lemma chunk_text_exceeds_bound:
  "py_strip (collapse_ws False short_sentence_text) = short_sentence_text
   \<and> nat \<lceil>real (length short_sentence_text) / real_of_int (10 - 0)\<rceil> = 2
   \<and> chunk_text 2 \<lparr>chunk_size = 10, chunk_overlap = 0\<rparr> short_sentence_text = None
   \<and> chunk_text 3 \<lparr>chunk_size = 10, chunk_overlap = 0\<rparr> short_sentence_text
       = Some [''a.'', ''bbbbbbbbbb'', ''bbbbbbb'']
   \<and> window_end \<lparr>chunk_size = 5, chunk_overlap = 5\<rparr> plain_text 0 - 5 = 0
   \<and> chunk_text 4 \<lparr>chunk_size = 5, chunk_overlap = 5\<rparr> plain_text = None"
proof -
  have 1: "py_strip (collapse_ws False short_sentence_text) = short_sentence_text" by code_simp
  have 2: "nat \<lceil>real (length short_sentence_text) / real_of_int (10 - 0)\<rceil> = 2"
    by (simp add: short_sentence_text_def)
  have 3: "chunk_text 2 \<lparr>chunk_size = 10, chunk_overlap = 0\<rparr> short_sentence_text = None"
    by code_simp
  have 4: "chunk_text 3 \<lparr>chunk_size = 10, chunk_overlap = 0\<rparr> short_sentence_text
       = Some [''a.'', ''bbbbbbbbbb'', ''bbbbbbb'']"
    by code_simp
  have 5: "window_end \<lparr>chunk_size = 5, chunk_overlap = 5\<rparr> plain_text 0 - 5 = 0" by code_simp
  have 6: "chunk_text 4 \<lparr>chunk_size = 5, chunk_overlap = 5\<rparr> plain_text = None" by code_simp
  from 1 2 3 4 5 6 show ?thesis by (intro conjI)
qed

subsection \<open>Iterations that do not advance\<close>

text \<open>
  An iteration that begins at \<open>start \<ge> 0\<close> cuts its chunk at \<open>start + size\<close> or before.
  So with an overlap of the size or more the next \<open>start\<close> is not beyond this one.
\<close>

lemma py_rfind_bound:
  "py_rfind t sub i j = - 1
   \<or> py_rfind t sub i j + int (length sub) \<le> int (clip_index (length t) j)"
proof -
  define cands where "cands =
     (if clip_index (length t) i + length sub \<le> clip_index (length t) j
      then [clip_index (length t) i ..< clip_index (length t) j - length sub + 1] else [])"
  define found where "found = filter (\<lambda>p. take (length sub) (drop p t) = sub) cands"
  have r: "py_rfind t sub i j = (if found = [] then - 1 else int (last found))"
    by (simp add: py_rfind_def Let_def found_def cands_def)
  show ?thesis
  proof (cases "found = []")
    case True
    then show ?thesis by (simp add: r)
  next
    case False
    then have "last found \<in> set cands" using last_in_set[OF False] by (simp add: found_def)
    then have "last found + length sub \<le> clip_index (length t) j"
      unfolding cands_def by (auto split: if_splits)
    then show ?thesis using False by (simp add: r)
  qed
qed

lemma last_sentence_end_bound:
  "last_sentence_end t start stop \<le> max (- 1) (int (clip_index (length t) stop))"
proof -
  define b where "b = max (- 1) (int (clip_index (length t) stop))"
  have "fold (\<lambda>ending last_sentence.
             (let pos = py_rfind t ending start stop
              in if pos > last_sentence then pos + int (length ending) else last_sentence))
       es acc \<le> b"
    if "- 1 \<le> acc" "acc \<le> b" for es acc
    using that
  proof (induction es arbitrary: acc)
    case Nil
    then show ?case by simp
  next
    case (Cons ending es)
    let ?pos = "py_rfind t ending start stop"
    show ?case
    proof (cases "?pos > acc")
      case False
      then show ?thesis using Cons.IH[OF Cons.prems] by (simp add: Let_def)
    next
      case True
      with Cons.prems(1) have "?pos \<noteq> - 1" by simp
      with py_rfind_bound[of t ending start stop]
      have "?pos + int (length ending) \<le> int (clip_index (length t) stop)" by blast
      then have u: "?pos + int (length ending) \<le> b" by (simp add: b_def)
      have l: "- 1 \<le> ?pos + int (length ending)" using True Cons.prems(1) by simp
      show ?thesis using True Cons.IH[OF l u] by (simp add: Let_def)
    qed
  qed
  from this[of "- 1" sentence_endings] show ?thesis
    by (simp add: last_sentence_end_def b_def)
qed

lemma window_end_le:
  assumes "0 \<le> start" and "0 < chunk_size dp"
  shows "window_end dp t start \<le> start + chunk_size dp"
proof -
  let ?stop = "start + chunk_size dp"
  have "int (clip_index (length t) ?stop) \<le> ?stop"
    using assms by (simp add: clip_index_def)
  with last_sentence_end_bound[of t start ?stop]
  have "last_sentence_end t start ?stop \<le> ?stop" using assms by simp
  then show ?thesis by (simp add: window_end_def Let_def)
qed

lemma no_forward_progress:
  assumes "0 \<le> start" and "0 < chunk_size dp" and "chunk_size dp \<le> chunk_overlap dp"
  shows "window_end dp t start - chunk_overlap dp \<le> start"
  using window_end_le[OF assms(1,2), of t] assms(3) by simp

section \<open>The keyword-only path without matches\<close>

text \<open>
  Claim C10. Called with an empty \<open>matching_services\<close> list,
  \<open>categorize_idea_development_need\<close> returns recommendation \<open>new_service\<close> with
  confidence 0.9 and an empty \<open>matching_services\<close> list, whatever the title and the
  description; the confidence differs from the 0.8 of \<open>_no_match_result\<close>.
\<close>

theorem categorize_empty_new_service_09:
  "recommendation (categorize_idea_development_need t d []) = ''new_service''
   \<and> confidence (categorize_idea_development_need t d []) = 0.9
   \<and> matching_services (categorize_idea_development_need t d []) = []
   \<and> service_confidence no_match_result = 0.8
   \<and> confidence (categorize_idea_development_need t d []) \<noteq> service_confidence no_match_result"
  by (simp add: no_match_result_def)

end
